theory Spec2Isabelle
  imports Complex_Main
begin

section \<open>Marginal message passing: the embedding of \<^verbatim>\<open>run_mmp_v2\<close>\<close>

text \<open>
  The source is \<^verbatim>\<open>src/pymdp/core/algos/mmp_v2.py\<close>. Its arrays of floats are lists of
  reals here (the arithmetic is the exact one, without rounding, overflow or NaN), the
  per-factor object arrays are lists indexed by factor, and the exceptions of the
  allocation of line 39, of the stacking of line 67 and of the indexing of lines 85 and
  92 are values of type \<open>error\<close>.
  Shapes of the model are taken to agree the way the source expects (the beliefs and the
  prior of factor \<open>f\<close> have \<open>num_states[f]\<close> entries, the slices of \<open>B\<close> are square of that
  size, the likelihood tensors have one axis of that size per factor); where a proof
  needs that, it is a hypothesis.
\<close>

subsection \<open>Arrays\<close>

type_synonym vec = "real list"

text \<open>A matrix is the list of its rows.\<close>

type_synonym matrix = "real list list"

text \<open>A likelihood tensor: one axis per hidden-state factor, outermost first.\<close>

datatype tensor = Val real | Dim "tensor list"

text \<open>A 2-D array keeps its number of columns also when it has no row.\<close>

record ndarray2 =
  shape1 :: nat
  rows :: "vec list"

datatype error = IndexError | ValueError

fun bindE :: "error + 'a \<Rightarrow> ('a \<Rightarrow> error + 'b) \<Rightarrow> error + 'b" where
  "bindE (Inl e) k = Inl e"
| "bindE (Inr x) k = k x"

text \<open>A \<^verbatim>\<open>for\<close> loop over a list that threads a state and stops at the first exception.\<close>

fun fold_err :: "('a \<Rightarrow> 's \<Rightarrow> error + 's) \<Rightarrow> 'a list \<Rightarrow> 's \<Rightarrow> error + 's" where
  "fold_err step [] s = Inr s"
| "fold_err step (x # xs) s = bindE (step x s) (fold_err step xs)"

definition vadd :: "vec \<Rightarrow> vec \<Rightarrow> vec" where
  "vadd a b = map2 (+) a b"

definition vsub :: "vec \<Rightarrow> vec \<Rightarrow> vec" where
  "vsub a b = map2 (-) a b"

definition smul :: "real \<Rightarrow> vec \<Rightarrow> vec" where
  "smul c a = map ((*) c) a"

definition sdiv :: "vec \<Rightarrow> real \<Rightarrow> vec" where
  "sdiv a c = map (\<lambda>x. x / c) a"

definition dot :: "vec \<Rightarrow> vec \<Rightarrow> real" where
  "dot a b = sum_list (map2 (*) a b)"

definition mean :: "vec \<Rightarrow> real" where
  "mean a = sum_list a / real (length a)"

definition mat_vec :: "matrix \<Rightarrow> vec \<Rightarrow> vec" where
  "mat_vec M v = map (\<lambda>r. dot r v) M"

text \<open>\<^verbatim>\<open>np.log(x + 1e-16)\<close>, on one entry, on a vector and on a tensor.\<close>

definition log_floor1 :: "real \<Rightarrow> real" where
  "log_floor1 x = ln (x + 1 / 10 ^ 16)"

definition log_floor :: "vec \<Rightarrow> vec" where
  "log_floor v = map log_floor1 v"

fun tensor_map :: "(real \<Rightarrow> real) \<Rightarrow> tensor \<Rightarrow> tensor" where
  "tensor_map g (Val v) = Val (g v)"
| "tensor_map g (Dim ts) = Dim (map (tensor_map g) ts)"

text \<open>Python's \<^verbatim>\<open>int()\<close> of a float truncates toward zero.\<close>

definition py_int :: "real \<Rightarrow> int" where
  "py_int x = (if 0 \<le> x then \<lfloor>x\<rfloor> else \<lceil>x\<rceil>)"

text \<open>
  \<^verbatim>\<open>X[:, :, a]\<close> on a 3-D array given as the list of its slices along the last axis:
  numpy takes \<open>a\<close> in \<open>[-n, n)\<close>, a negative index counting from the end, and raises
  IndexError otherwise.
\<close>

definition action_slice :: "matrix list \<Rightarrow> int \<Rightarrow> error + matrix" where
  "action_slice X a =
     (let n = int (length X) in
      if 0 \<le> a \<and> a < n then Inr (X ! nat a)
      else if - n \<le> a \<and> a < 0 then Inr (X ! nat (a + n))
      else Inl IndexError)"

text \<open>\<^verbatim>\<open>policy[t, f]\<close> for indices that are not negative.\<close>

definition policy_at :: "ndarray2 \<Rightarrow> nat \<Rightarrow> nat \<Rightarrow> error + real" where
  "policy_at p t f =
     (if t < length (rows p) \<and> f < length (rows p ! t) then Inr (rows p ! t ! f)
      else Inl IndexError)"

subsection \<open>The collaborators of \<^verbatim>\<open>pymdp.core.maths\<close>\<close>

text \<open>
  Modelled from the spec: \<^verbatim>\<open>softmax\<close>, which is imported from \<^verbatim>\<open>pymdp.core.maths\<close> and
  is not part of the source file. The spec (4.4) gives it as
  \<^verbatim>\<open>normalize(exp(x))\<close> over the factor's state axis.
\<close>

definition softmax :: "vec \<Rightarrow> vec" where
  "softmax xs = (let ys = map exp xs in map (\<lambda>y. y / sum_list ys) ys)"

text \<open>
  Modelled from the spec: \<^verbatim>\<open>spm_dot(X, x, [f])\<close>, imported from \<^verbatim>\<open>pymdp.core.maths\<close>
  and not part of the source file. The spec (4.3, 6) gives it as the marginalization
  primitive that contracts a likelihood tensor against the beliefs of all factors but
  \<open>f\<close>, projecting onto factor \<open>f\<close>. \<open>contract qs f i g X\<close> is the entry \<open>i\<close> of the
  result, for the sub-tensor \<open>X\<close> whose outermost axis is the one of factor \<open>g\<close>.
\<close>

fun axis_len :: "nat \<Rightarrow> tensor \<Rightarrow> nat" where
  "axis_len f (Val v) = 1"
| "axis_len 0 (Dim ts) = length ts"
| "axis_len (Suc f) (Dim ts) = (case ts of [] \<Rightarrow> 0 | s # _ \<Rightarrow> axis_len f s)"

function contract :: "vec list \<Rightarrow> nat \<Rightarrow> nat \<Rightarrow> nat \<Rightarrow> tensor \<Rightarrow> real" where
  "contract qs f i g (Val v) = v"
| "contract qs f i g (Dim ts) =
     (if g = f then (if i < length ts then contract qs f i (Suc g) (ts ! i) else 0)
      else sum_list (map (\<lambda>(q, s). q * contract qs f i (Suc g) s) (zip (qs ! g) ts)))"
  by pat_completeness auto
termination
proof (relation "measure (\<lambda>(qs, f, i, g, X). size X)")
  show "wf (measure (\<lambda>(qs, f, i, g, X). size X))"
    by simp
next
  fix qs :: "vec list" and f i g :: nat and ts :: "tensor list"
  assume "g = f" "i < length ts"
  then have "ts ! i \<in> set ts"
    by simp
  then have "size (ts ! i) \<le> size_list size ts"
    by (rule size_list_estimation') simp
  then show "((qs, f, i, Suc g, ts ! i), (qs, f, i, g, Dim ts))
               \<in> measure (\<lambda>(qs, f, i, g, X). size X)"
    by simp
next
  fix qs :: "vec list" and f i g :: nat and ts :: "tensor list" and x :: "real \<times> tensor"
    and q :: real and s :: tensor
  assume "x \<in> set (zip (qs ! g) ts)" "(q, s) = x"
  then have "s \<in> set ts"
    by (auto dest: set_zip_rightD)
  then have "size s \<le> size_list size ts"
    by (rule size_list_estimation') simp
  then show "((qs, f, i, Suc g, s), (qs, f, i, g, Dim ts))
               \<in> measure (\<lambda>(qs, f, i, g, X). size X)"
    by simp
qed

definition spm_dot :: "tensor \<Rightarrow> vec list \<Rightarrow> nat \<Rightarrow> vec" where
  "spm_dot X qs f = map (\<lambda>i. contract qs f i 0 X) [0..<axis_len f X]"

text \<open>
  The other two collaborators, \<^verbatim>\<open>calc_free_energy\<close> (the free-energy primitive, with its
  optional \<^verbatim>\<open>likelihood\<close> argument) and \<^verbatim>\<open>spm_norm\<close> (the normalization primitive), are
  not part of the source file either; they are parameters of the model.
\<close>

type_synonym free_energy_fn = "vec list \<Rightarrow> vec list \<Rightarrow> nat \<Rightarrow> tensor option \<Rightarrow> real"

text \<open>
  Modelled from the spec: one instance of each of the two, for the examples below. The
  spec (6) gives the normalization primitive as producing probability vectors (here the
  columns of the floored matrix, each divided by its sum) and the free-energy primitive
  as the divergence of each factor's belief from its prior, less the expected
  log-likelihood when a likelihood is passed.
\<close>

definition normalize_columns :: "matrix \<Rightarrow> matrix" where
  "normalize_columns M =
     (let A = map (map (\<lambda>x. x + 1 / 10 ^ 16)) M;
          totals = map sum_list (transpose A)
      in map (\<lambda>r. map2 (/) r totals) A)"

definition kl_free_energy :: free_energy_fn where
  "kl_free_energy qs prior n likelihood =
     (\<Sum>f\<leftarrow>[0..<n]. dot (qs ! f) (log_floor (qs ! f)) - dot (qs ! f) (log_floor (prior ! f)))
     - (case likelihood of None \<Rightarrow> 0 | Some L \<Rightarrow> contract qs (length qs) 0 0 L)"

subsection \<open>Window (lines 22-31)\<close>

definition infer_len :: "nat \<Rightarrow> nat \<Rightarrow> bool \<Rightarrow> int" where
  "infer_len past_len future_len last_timestep =
     (if last_timestep then int past_len + int future_len - 1
      else int past_len + int future_len)"

definition future_cutoff :: "nat \<Rightarrow> nat \<Rightarrow> int" where
  "future_cutoff past_len future_len = int past_len + int future_len - 2"

subsection \<open>Preprocessing (lines 33-70)\<close>

text \<open>\<^verbatim>\<open>np.ones(n) / n\<close>.\<close>

definition uniform :: "nat \<Rightarrow> vec" where
  "uniform n = replicate n (1 / real n)"

text \<open>Lines 38-44: \<open>n\<close> timesteps, each with one uniform belief per factor.\<close>

definition init_qs_seq :: "nat list \<Rightarrow> nat \<Rightarrow> vec list list" where
  "init_qs_seq num_states n = replicate n (map uniform num_states)"

text \<open>Lines 46-49.\<close>

definition make_qs_T :: "nat list \<Rightarrow> vec list" where
  "make_qs_T num_states = map (\<lambda>n. replicate n 0) num_states"

text \<open>Lines 51-55.\<close>

definition make_prior :: "nat list \<Rightarrow> vec list option \<Rightarrow> vec list" where
  "make_prior num_states prior =
     (case prior of None \<Rightarrow> map uniform num_states | Some p \<Rightarrow> p)"

text \<open>Lines 57-62, for the normalization primitive \<open>spm_norm\<close>.\<close>

definition make_trans_B :: "(matrix \<Rightarrow> matrix) \<Rightarrow> matrix list list \<Rightarrow> matrix list list" where
  "make_trans_B spm_norm B = map (map (\<lambda>M. spm_norm (transpose M))) B"

text \<open>
  Lines 64-67. \<^verbatim>\<open>prev_actions\<close> defaults to \<^verbatim>\<open>np.zeros((past_len, policy.shape[1]))\<close>,
  and \<^verbatim>\<open>np.vstack((prev_actions, policy))\<close> raises ValueError unless the two arrays have
  the same number of columns. \<open>stacked_policy\<close> is the array the stacking builds when it
  builds one, \<open>full_policy\<close> the outcome of line 67.
\<close>

definition columns_agree :: "ndarray2 \<Rightarrow> ndarray2 option \<Rightarrow> bool" where
  "columns_agree policy prev_actions =
     (case prev_actions of None \<Rightarrow> True | Some p \<Rightarrow> shape1 p = shape1 policy)"

definition stacked_policy :: "nat \<Rightarrow> ndarray2 \<Rightarrow> ndarray2 option \<Rightarrow> ndarray2" where
  "stacked_policy past_len policy prev_actions =
     \<lparr>shape1 = shape1 policy,
      rows = (case prev_actions of
                None \<Rightarrow> replicate past_len (replicate (shape1 policy) 0)
              | Some p \<Rightarrow> rows p) @ rows policy\<rparr>"

definition full_policy :: "nat \<Rightarrow> ndarray2 \<Rightarrow> ndarray2 option \<Rightarrow> error + ndarray2" where
  "full_policy past_len policy prev_actions =
     (if columns_agree policy prev_actions
      then Inr (stacked_policy past_len policy prev_actions)
      else Inl ValueError)"

subsection \<open>The three messages (lines 75-93)\<close>

definition likelihood_message :: "nat list \<Rightarrow> tensor list \<Rightarrow> vec list list \<Rightarrow> nat \<Rightarrow> nat \<Rightarrow> vec" where
  "likelihood_message num_states ll_seq qs_seq t f =
     (if t < length ll_seq then log_floor (spm_dot (ll_seq ! t) (qs_seq ! t) f)
      else replicate (num_states ! f) 0)"

definition past_message ::
  "matrix list list \<Rightarrow> ndarray2 \<Rightarrow> vec list \<Rightarrow> vec list list \<Rightarrow> nat \<Rightarrow> nat \<Rightarrow> error + vec" where
  "past_message B policy prior qs_seq t f =
     (if t = 0 then Inr (log_floor (prior ! f))
      else bindE (policy_at policy (t - 1) f) (\<lambda>a.
           bindE (action_slice (B ! f) (py_int a)) (\<lambda>M.
           Inr (log_floor (mat_vec M (qs_seq ! (t - 1) ! f))))))"

definition future_message ::
  "matrix list list \<Rightarrow> ndarray2 \<Rightarrow> vec list \<Rightarrow> int \<Rightarrow> vec list list \<Rightarrow> nat \<Rightarrow> nat \<Rightarrow> error + vec" where
  "future_message trans_B policy qs_T cutoff qs_seq t f =
     (if int t \<ge> cutoff then Inr (qs_T ! f)
      else bindE (policy_at policy t f) (\<lambda>a.
           bindE (action_slice (trans_B ! f) (py_int a)) (\<lambda>M.
           Inr (log_floor (mat_vec M (qs_seq ! (t + 1) ! f))))))"

subsection \<open>The two update rules (lines 95-109)\<close>

text \<open>The state of the loops: the belief sequence and the accumulated free energy.\<close>

type_synonym state = "vec list list \<times> real"

definition set_belief :: "vec list list \<Rightarrow> nat \<Rightarrow> nat \<Rightarrow> vec \<Rightarrow> vec list list" where
  "set_belief qs_seq t f v = qs_seq[t := (qs_seq ! t)[f := v]]"

text \<open>Line 109.\<close>

definition direct_update :: "nat \<Rightarrow> nat \<Rightarrow> vec \<Rightarrow> vec \<Rightarrow> vec \<Rightarrow> state \<Rightarrow> state" where
  "direct_update t f lnA lnB_past lnB_future s =
     (set_belief (fst s) t f (softmax (vadd (vadd lnA lnB_past) lnB_future)), snd s)"

text \<open>Lines 97-106.\<close>

definition grad_update ::
  "real \<Rightarrow> int \<Rightarrow> int \<Rightarrow> nat \<Rightarrow> nat \<Rightarrow> nat \<Rightarrow> vec \<Rightarrow> vec \<Rightarrow> vec \<Rightarrow> state \<Rightarrow> state" where
  "grad_update tau cutoff il num_factors t f lnA lnB_past lnB_future s =
     (let lnqs = log_floor (fst s ! t ! f);
          coeff = (if int t \<ge> cutoff then 1 else 2);
          err0 = vsub (vadd (vadd (smul coeff lnA) lnB_past) lnB_future) (smul coeff lnqs);
          err = map (\<lambda>x. x - mean err0) err0;
          lnqs' = vadd lnqs (smul tau err)
      in (set_belief (fst s) t f (softmax lnqs'),
          snd s +
            (if t = 0 \<or> int t = il - 1 then 0.5 * dot lnqs' (smul 0.5 err)
             else dot lnqs'
                    (smul 0.5 (vsub err (sdiv (smul (real_of_int (int num_factors - 1)) lnA)
                                               (real num_factors)))))))"

subsection \<open>The loops (lines 72-118)\<close>

record ctx =
  c_free_energy :: free_energy_fn
  c_num_states :: "nat list"
  c_B :: "matrix list list"
  c_trans_B :: "matrix list list"
  c_ll_seq :: "tensor list"
  c_policy :: ndarray2
  c_prior :: "vec list"
  c_qs_T :: "vec list"
  c_grad_descent :: bool
  c_tau :: real
  c_infer_len :: int
  c_future_cutoff :: int

text \<open>One visit of the innermost loop body, lines 75-109.\<close>

definition visit :: "ctx \<Rightarrow> nat \<Rightarrow> nat \<Rightarrow> state \<Rightarrow> error + state" where
  "visit c t f s =
     (let lnA = likelihood_message (c_num_states c) (c_ll_seq c) (fst s) t f in
      bindE (past_message (c_B c) (c_policy c) (c_prior c) (fst s) t f) (\<lambda>lnB_past.
      bindE (future_message (c_trans_B c) (c_policy c) (c_qs_T c) (c_future_cutoff c) (fst s) t f)
        (\<lambda>lnB_future.
           Inr (if c_grad_descent c
                then grad_update (c_tau c) (c_future_cutoff c) (c_infer_len c)
                       (length (c_num_states c)) t f lnA lnB_past lnB_future s
                else direct_update t f lnA lnB_past lnB_future s))))"

text \<open>Lines 111-115: the free energy of the timestep, on the direct rule only.\<close>

definition free_energy_term :: "ctx \<Rightarrow> nat \<Rightarrow> vec list list \<Rightarrow> real" where
  "free_energy_term c t qs_seq =
     c_free_energy c (qs_seq ! t) (c_prior c) (length (c_num_states c))
       (if t < length (c_ll_seq c) then Some (tensor_map log_floor1 (c_ll_seq c ! t)) else None)"

definition accumulate :: "ctx \<Rightarrow> nat \<Rightarrow> state \<Rightarrow> state" where
  "accumulate c t s =
     (if c_grad_descent c then s else (fst s, snd s + free_energy_term c t (fst s)))"

text \<open>The body of the loop over \<open>t\<close>: the loop over the factors, then lines 111-115.\<close>

definition timestep :: "ctx \<Rightarrow> nat \<Rightarrow> state \<Rightarrow> error + state" where
  "timestep c t s =
     bindE (fold_err (visit c t) [0..<length (c_num_states c)] s) (\<lambda>s'. Inr (accumulate c t s'))"

definition sweep :: "ctx \<Rightarrow> state \<Rightarrow> error + state" where
  "sweep c s = fold_err (timestep c) [0..<nat (c_infer_len c)] s"

definition make_ctx ::
  "free_energy_fn \<Rightarrow> (matrix \<Rightarrow> matrix) \<Rightarrow> nat list \<Rightarrow> matrix list list \<Rightarrow> tensor list \<Rightarrow>
   ndarray2 \<Rightarrow> ndarray2 option \<Rightarrow> vec list option \<Rightarrow> bool \<Rightarrow> real \<Rightarrow> bool \<Rightarrow> ctx" where
  "make_ctx calc_free_energy spm_norm num_states B ll_seq policy prev_actions prior
     grad_descent tau last_timestep =
     \<lparr>c_free_energy = calc_free_energy,
      c_num_states = num_states,
      c_B = B,
      c_trans_B = make_trans_B spm_norm B,
      c_ll_seq = ll_seq,
      c_policy = stacked_policy (length ll_seq) policy prev_actions,
      c_prior = make_prior num_states prior,
      c_qs_T = make_qs_T num_states,
      c_grad_descent = grad_descent,
      c_tau = tau,
      c_infer_len = infer_len (length ll_seq) (length (rows policy)) last_timestep,
      c_future_cutoff = future_cutoff (length ll_seq) (length (rows policy))\<rparr>"

text \<open>
  \<^verbatim>\<open>run_mmp_v2\<close>. \<open>num_states\<close> (with \<open>num_factors\<close> its length) is what the source gets
  from \<^verbatim>\<open>get_model_dimensions(A, B)\<close>; \<open>B ! f ! u\<close> is the slice \<^verbatim>\<open>B[f][:, :, u]\<close>.
  Allocating the belief sequence (line 39) raises for a negative length, and the stacking
  of line 67 raises when the columns of \<^verbatim>\<open>prev_actions\<close> and \<^verbatim>\<open>policy\<close> differ; the loops
  run on the trajectory the stacking returns.
\<close>

definition run_mmp_v2 ::
  "free_energy_fn \<Rightarrow> (matrix \<Rightarrow> matrix) \<Rightarrow> nat list \<Rightarrow> matrix list list \<Rightarrow> tensor list \<Rightarrow>
   ndarray2 \<Rightarrow> ndarray2 option \<Rightarrow> vec list option \<Rightarrow> int \<Rightarrow> bool \<Rightarrow> real \<Rightarrow> bool \<Rightarrow>
   error + state" where
  "run_mmp_v2 calc_free_energy spm_norm num_states B ll_seq policy prev_actions prior
     num_iter grad_descent tau last_timestep =
     (let c = make_ctx calc_free_energy spm_norm num_states B ll_seq policy prev_actions prior
                grad_descent tau last_timestep
      in if c_infer_len c < 0 then Inl ValueError
         else bindE (full_policy (length ll_seq) policy prev_actions) (\<lambda>full.
                fold_err (\<lambda>itr. sweep (c\<lparr>c_policy := full\<rparr>)) [0..<nat num_iter]
                  (init_qs_seq num_states (nat (c_infer_len c)), 0)))"

subsection \<open>Action entries that index a slice\<close>

text \<open>
  The entry \<^verbatim>\<open>policy[r, f]\<close> of the full action trajectory exists and its \<^verbatim>\<open>int()\<close> lies
  in \<open>[0, num_actions[f])\<close>, and the action it stands for.
\<close>

definition valid_action :: "matrix list list \<Rightarrow> ndarray2 \<Rightarrow> nat \<Rightarrow> nat \<Rightarrow> bool" where
  "valid_action B p r f =
     (r < length (rows p) \<and> f < length (rows p ! r) \<and> f < length B
      \<and> 0 \<le> py_int (rows p ! r ! f) \<and> py_int (rows p ! r ! f) < int (length (B ! f)))"

definition action :: "ndarray2 \<Rightarrow> nat \<Rightarrow> nat \<Rightarrow> nat" where
  "action p r f = nat (py_int (rows p ! r ! f))"

subsection \<open>Example calls\<close>

text \<open>
  One factor with two states and one action whose transition matrix is the identity; the
  likelihood of every past timestep is uniform. \<open>example_ctx\<close> has one past and two future
  timesteps and a prior that is not uniform, \<open>cutoff_example\<close> two past and two future
  timesteps, \<open>collapse_example\<close> two past timesteps, one future timestep and
  \<^verbatim>\<open>last_timestep\<close> set.
\<close>

definition example_B :: "matrix list list" where
  "example_B = [[[[1, 0], [0, 1]]]]"

definition example_ll :: tensor where
  "example_ll = Dim [Val 1, Val 1]"

definition example_ctx :: "bool \<Rightarrow> ctx" where
  "example_ctx gd = make_ctx kl_free_energy normalize_columns [2] example_B [example_ll]
        \<lparr>shape1 = 1, rows = [[0], [0]]\<rparr> None (Some [[1/4, 3/4]]) gd (1/4) False"

definition cutoff_example :: ctx where
  "cutoff_example = make_ctx kl_free_energy normalize_columns [2] example_B [example_ll, example_ll]
        \<lparr>shape1 = 1, rows = [[0], [0]]\<rparr> None None False (1/4) False"

definition collapse_example :: ctx where
  "collapse_example = make_ctx kl_free_energy normalize_columns [2] example_B [example_ll, example_ll]
        \<lparr>shape1 = 1, rows = [[0]]\<rparr> None None False (1/4) True"

subsection \<open>Action trajectories\<close>

text \<open>
  The action trajectory with every entry replaced by its \<^verbatim>\<open>int()\<close>, and an entry of the
  full trajectory that exists and whose \<^verbatim>\<open>int()\<close> numpy refuses as an index of the last
  axis of \<open>B[f]\<close>.
\<close>

definition trunc_rows :: "vec list \<Rightarrow> vec list" where
  "trunc_rows rs = map (map (\<lambda>x. real_of_int (py_int x))) rs"

definition trunc_policy :: "ndarray2 \<Rightarrow> ndarray2" where
  "trunc_policy p = \<lparr>shape1 = shape1 p, rows = trunc_rows (rows p)\<rparr>"

definition out_of_range :: "matrix list list \<Rightarrow> ndarray2 \<Rightarrow> nat \<Rightarrow> nat \<Rightarrow> bool" where
  "out_of_range B p r f =
     (r < length (rows p) \<and> f < length (rows p ! r)
      \<and> (int (length (B ! f)) \<le> py_int (rows p ! r ! f)
           \<or> py_int (rows p ! r ! f) < - int (length (B ! f))))"

text \<open>
  The trajectory has every entry the loops read: the rows \<open>0\<close> to \<open>infer_len - 2\<close>, with
  a column for every factor.
\<close>

definition trajectory_covers :: "ndarray2 \<Rightarrow> int \<Rightarrow> nat \<Rightarrow> bool" where
  "trajectory_covers full il num_factors =
     (\<forall>r g. int r \<le> il - 2 \<longrightarrow> g < num_factors \<longrightarrow>
            r < length (rows full) \<and> g < length (rows full ! r))"

subsection \<open>Probability vectors and shapes\<close>

text \<open>
  A probability vector; a belief sequence of \<open>n\<close> timesteps whose beliefs all are
  probability vectors; and the inputs whose shapes agree: every factor has a state, and
  the prior, the slices of \<open>B\<close> and of \<open>trans_B\<close> and the axis of every likelihood tensor
  have \<open>num_states[f]\<close> entries for factor \<open>f\<close>.
\<close>

definition distribution :: "vec \<Rightarrow> bool" where
  "distribution v = ((\<forall>x \<in> set v. 0 \<le> x) \<and> sum_list v = 1)"

definition valid_beliefs :: "nat \<Rightarrow> nat \<Rightarrow> vec list list \<Rightarrow> bool" where
  "valid_beliefs n num_factors qs_seq =
     (length qs_seq = n
      \<and> (\<forall>t < n. length (qs_seq ! t) = num_factors
             \<and> (\<forall>f < num_factors. distribution (qs_seq ! t ! f))))"

definition shapes_agree ::
  "(matrix \<Rightarrow> matrix) \<Rightarrow> nat list \<Rightarrow> matrix list list \<Rightarrow> tensor list \<Rightarrow> vec list \<Rightarrow> bool" where
  "shapes_agree spm_norm num_states B ll_seq prior =
     (length B = length num_states \<and> length prior = length num_states
      \<and> (\<forall>f < length num_states.
            0 < num_states ! f
            \<and> length (prior ! f) = num_states ! f
            \<and> (\<forall>M \<in> set (B ! f). length M = num_states ! f
                   \<and> length (spm_norm (transpose M)) = num_states ! f)
            \<and> (\<forall>X \<in> set ll_seq. axis_len f X = num_states ! f)))"

subsection \<open>The free energy of the direct rule, as a sum\<close>

text \<open>
  The timesteps in the order the loops of lines 72-73 visit them; the term one timestep
  adds on the direct rule, the free-energy primitive on the joint belief of the timestep
  against the prior, with the floored log of the likelihood passed at the past timesteps
  only; and the list of these terms along a list of timesteps, each computed on the belief
  sequence as the loop over the factors of its timestep leaves it.
\<close>

definition traversal :: "nat \<Rightarrow> nat \<Rightarrow> nat list" where
  "traversal num_iter n = concat (replicate num_iter [0..<n])"

definition timestep_free_energy ::
  "free_energy_fn \<Rightarrow> vec list \<Rightarrow> nat \<Rightarrow> tensor list \<Rightarrow> nat \<Rightarrow> vec list \<Rightarrow> real" where
  "timestep_free_energy calc_free_energy prior num_factors ll_seq t q =
     (if t < length ll_seq
      then calc_free_energy q prior num_factors
             (Some (tensor_map (\<lambda>x. ln (x + 1 / 10 ^ 16)) (ll_seq ! t)))
      else calc_free_energy q prior num_factors None)"

fun contributions :: "ctx \<Rightarrow> nat list \<Rightarrow> vec list list \<Rightarrow> real list" where
  "contributions c [] qs_seq = []"
| "contributions c (t # ts) qs_seq =
     (case fold_err (visit c t) [0..<length (c_num_states c)] (qs_seq, 0) of
        Inl e \<Rightarrow> []
      | Inr s \<Rightarrow> timestep_free_energy (c_free_energy c) (c_prior c) (length (c_num_states c))
                   (c_ll_seq c) t (fst s ! t)
                 # contributions c ts (fst s))"

text \<open>The result of a loop with its second component replaced.\<close>

definition with_F :: "real \<Rightarrow> error + state \<Rightarrow> error + state" where
  "with_F F r = (case r of Inl e \<Rightarrow> Inl e | Inr s \<Rightarrow> Inr (fst s, F))"

definition accumulation_example :: ctx where
  "accumulation_example = make_ctx kl_free_energy normalize_columns [2] example_B [example_ll]
        \<lparr>shape1 = 1, rows = [[0]]\<rparr> None None False (1/4) False"

subsection \<open>Uniform evidence\<close>

text \<open>
  The likelihood tensor of the given shape whose entries all are \<open>k\<close>, and a transition
  array of one factor with two states and one action whose matrix has columns that sum to
  \<open>1\<close> and rows that do not.
\<close>

fun const_tensor :: "nat list \<Rightarrow> real \<Rightarrow> tensor" where
  "const_tensor [] k = Val k"
| "const_tensor (n # shape) k = Dim (replicate n (const_tensor shape k))"

definition skewed_B :: "matrix list list" where
  "skewed_B = [[[[1, 1 / 2], [0, 1 / 2]]]]"

section \<open>Properties\<close>

lemma run_eq:
  "run_mmp_v2 cfe nrm ns B ll pol prev prior n gd tau lt =
     (if infer_len (length ll) (length (rows pol)) lt < 0 \<or> \<not> columns_agree pol prev
      then Inl ValueError
      else fold_err (\<lambda>itr. sweep (make_ctx cfe nrm ns B ll pol prev prior gd tau lt)) [0..<nat n]
             (init_qs_seq ns (nat (infer_len (length ll) (length (rows pol)) lt)), 0))"
  by (simp add: run_mmp_v2_def full_policy_def make_ctx_def Let_def)

lemma run_zero_iterations:
  "run_mmp_v2 cfe nrm ns B ll pol prev prior 0 gd tau lt =
     (if infer_len (length ll) (length (rows pol)) lt < 0 \<or> \<not> columns_agree pol prev
      then Inl ValueError
      else Inr (init_qs_seq ns (nat (infer_len (length ll) (length (rows pol)) lt)), 0))"
  by (simp add: run_eq)

lemma init_qs_seq_nth:
  "t < n \<Longrightarrow> f < length ns \<Longrightarrow> init_qs_seq ns n ! t ! f = replicate (ns ! f) (1 / real (ns ! f))"
  by (simp add: init_qs_seq_def uniform_def)

subsection \<open>No sweep\<close>

text \<open>
  C7. With \<open>num_iter = 0\<close> the call returns the initial beliefs and \<open>F = 0\<close>: the belief
  sequence has \<open>infer_len\<close> timesteps, each with one vector per factor, and the vector of
  factor \<open>f\<close> has \<open>num_states[f]\<close> entries, all equal to \<open>1 / num_states[f]\<close>. (The
  hypotheses leave out the two calls that raise before the loop: the empty window with
  \<open>last_timestep\<close> set, whose length \<open>-1\<close> makes the allocation of line 39 raise, and a
  \<^verbatim>\<open>prev_actions\<close> whose number of columns is not the one of \<^verbatim>\<open>policy\<close>, which makes the
  stacking of line 67 raise.)
\<close>

theorem num_iter_zero_returns_uniform:
  assumes "0 \<le> infer_len (length ll_seq) (length (rows policy)) last_timestep"
    and "columns_agree policy prev_actions"
  shows "\<exists>qs_seq. run_mmp_v2 calc_free_energy spm_norm num_states B ll_seq policy prev_actions prior
                      0 grad_descent tau last_timestep = Inr (qs_seq, 0)
           \<and> int (length qs_seq) = infer_len (length ll_seq) (length (rows policy)) last_timestep
           \<and> (\<forall>t < length qs_seq. length (qs_seq ! t) = length num_states
                \<and> (\<forall>f < length num_states.
                      qs_seq ! t ! f = replicate (num_states ! f) (1 / real (num_states ! f))))"
  using assms
  by (simp add: run_zero_iterations init_qs_seq_nth) (simp add: init_qs_seq_def uniform_def)

theorem num_iter_zero_witness:
  "\<exists>qs_seq. run_mmp_v2 kl_free_energy normalize_columns [2] [[[[1, 0], [0, 1]]]]
       [Dim [Val 1, Val 1]] \<lparr>shape1 = 1, rows = [[0]]\<rparr> (Some \<lparr>shape1 = 1, rows = [[0]]\<rparr>) None
       0 False (1/4) False
       = Inr (qs_seq, 0)
     \<and> length qs_seq = 2 \<and> qs_seq ! 0 ! 0 = [1/2, 1/2] \<and> qs_seq ! 1 ! 0 = [1/2, 1/2]"
proof -
  have h: "0 \<le> infer_len (length [Dim [Val 1, Val 1]])
                  (length (rows \<lparr>shape1 = 1, rows = [[0]]\<rparr>)) False"
    by (simp add: infer_len_def)
  have k: "columns_agree \<lparr>shape1 = 1, rows = [[0]]\<rparr> (Some \<lparr>shape1 = 1, rows = [[0]]\<rparr>)"
    by (simp add: columns_agree_def)
  from num_iter_zero_returns_uniform [OF h k, of kl_free_energy normalize_columns "[2]"
      "[[[[1, 0], [0, 1]]]]" None False "1/4"]
  obtain qs_seq where
    r: "run_mmp_v2 kl_free_energy normalize_columns [2] [[[[1, 0], [0, 1]]]]
          [Dim [Val 1, Val 1]] \<lparr>shape1 = 1, rows = [[0]]\<rparr>
          (Some \<lparr>shape1 = 1, rows = [[0]]\<rparr>) None 0 False (1/4) False
          = Inr (qs_seq, 0)"
    and l: "int (length qs_seq) = infer_len (length [Dim [Val 1, Val 1]])
              (length (rows \<lparr>shape1 = 1, rows = [[0::real]]\<rparr>)) False"
    and u: "\<forall>t < length qs_seq. length (qs_seq ! t) = length [2::nat]
                \<and> (\<forall>f < length [2::nat].
                      qs_seq ! t ! f = replicate ([2::nat] ! f) (1 / real ([2::nat] ! f)))"
    by blast
  from l have l2: "length qs_seq = 2"
    by (simp add: infer_len_def)
  from u l2 have "qs_seq ! 0 ! 0 = [1/2, 1/2]" "qs_seq ! 1 ! 0 = [1/2, 1/2]"
    by (simp_all add: numeral_2_eq_2)
  with r l2 show ?thesis
    by blast
qed

text \<open>
  The stacking of line 67 comes before the loop: a \<^verbatim>\<open>prev_actions\<close> with two columns and a
  \<^verbatim>\<open>policy\<close> with one raise, also with no sweep.
\<close>

lemma stacking_raises:
  "run_mmp_v2 kl_free_energy normalize_columns [2] [[[[1, 0], [0, 1]]]] [Dim [Val 1, Val 1]]
       \<lparr>shape1 = 1, rows = [[0]]\<rparr> (Some \<lparr>shape1 = 2, rows = [[0, 0]]\<rparr>) None 0 False (1/4) False
     = Inl ValueError"
  by (simp add: run_eq columns_agree_def)

subsection \<open>Lemmas on the preprocessing and the messages\<close>

lemma make_ctx_sel [simp]:
  "c_free_energy (make_ctx cfe nrm ns B ll pol prev prior gd tau lt) = cfe"
  "c_num_states (make_ctx cfe nrm ns B ll pol prev prior gd tau lt) = ns"
  "c_B (make_ctx cfe nrm ns B ll pol prev prior gd tau lt) = B"
  "c_trans_B (make_ctx cfe nrm ns B ll pol prev prior gd tau lt) = make_trans_B nrm B"
  "c_ll_seq (make_ctx cfe nrm ns B ll pol prev prior gd tau lt) = ll"
  "c_policy (make_ctx cfe nrm ns B ll pol prev prior gd tau lt) = stacked_policy (length ll) pol prev"
  "c_prior (make_ctx cfe nrm ns B ll pol prev prior gd tau lt) = make_prior ns prior"
  "c_qs_T (make_ctx cfe nrm ns B ll pol prev prior gd tau lt) = make_qs_T ns"
  "c_grad_descent (make_ctx cfe nrm ns B ll pol prev prior gd tau lt) = gd"
  "c_tau (make_ctx cfe nrm ns B ll pol prev prior gd tau lt) = tau"
  "c_infer_len (make_ctx cfe nrm ns B ll pol prev prior gd tau lt)
     = infer_len (length ll) (length (rows pol)) lt"
  "c_future_cutoff (make_ctx cfe nrm ns B ll pol prev prior gd tau lt)
     = future_cutoff (length ll) (length (rows pol))"
  by (simp_all add: make_ctx_def)

lemma action_slice_valid:
  "0 \<le> a \<Longrightarrow> a < int (length X) \<Longrightarrow> action_slice X a = Inr (X ! nat a)"
  by (simp add: action_slice_def)

lemma past_message_first:
  "past_message B p prior qs 0 f = Inr (log_floor (prior ! f))"
  by (simp add: past_message_def)

lemma past_message_valid:
  "0 < t \<Longrightarrow> valid_action B p (t - 1) f \<Longrightarrow>
   past_message B p prior qs t f
     = Inr (log_floor (mat_vec (B ! f ! action p (t - 1) f) (qs ! (t - 1) ! f)))"
  by (simp add: past_message_def valid_action_def policy_at_def action_slice_valid action_def)

lemma future_message_terminal:
  "cutoff \<le> int t \<Longrightarrow> future_message TB p qs_T cutoff qs t f = Inr (qs_T ! f)"
  by (simp add: future_message_def)

lemma future_message_valid:
  "int t < cutoff \<Longrightarrow> valid_action B p t f \<Longrightarrow>
   future_message (make_trans_B nrm B) p qs_T cutoff qs t f
     = Inr (log_floor (mat_vec (nrm (transpose (B ! f ! action p t f))) (qs ! (t + 1) ! f)))"
  by (simp add: future_message_def valid_action_def policy_at_def action_slice_valid action_def
      make_trans_B_def nat_less_iff)

lemma make_qs_T_nth: "f < length ns \<Longrightarrow> make_qs_T ns ! f = replicate (ns ! f) 0"
  by (simp add: make_qs_T_def)

lemma sdiv_smul: "sdiv (smul a v) b = smul (a / b) v"
  by (simp add: sdiv_def smul_def)

lemma replicate_numeral: "replicate (numeral k) x = x # replicate (pred_numeral k) x"
  by (simp add: numeral_eq_Suc)

lemmas eval_defs = future_message_def past_message_def stacked_policy_def full_policy_def
       columns_agree_def policy_at_def make_trans_B_def
       py_int_def action_slice_def init_qs_seq_def uniform_def mat_vec_def dot_def log_floor_def log_floor1_def normalize_columns_def
       replicate_numeral make_qs_T_def make_prior_def infer_len_def future_cutoff_def

lemma example_ctx_valid_action: "valid_action example_B (c_policy (example_ctx gd)) 0 0"
  by (simp add: example_ctx_def valid_action_def eval_defs example_B_def)

subsection \<open>The direct rule\<close>

text \<open>
  C1. With \<^verbatim>\<open>grad_descent\<close> false, the visit of timestep \<open>t\<close> and factor \<open>f\<close> overwrites
  \<open>qs_seq[t][f]\<close> with the softmax of \<open>lnA + lnB_past + lnB_future\<close> and leaves \<open>F\<close> as it
  is: \<open>lnA\<close> is the floored log of the marginalized evidence when \<open>t < past_len\<close> and the
  zero vector otherwise, \<open>lnB_past\<close> the floored log of \<open>prior[f]\<close> at \<open>t = 0\<close> and of
  \<open>B[f][:, :, action(t-1, f)]\<close> applied to \<open>qs_seq[t-1][f]\<close> otherwise, \<open>lnB_future\<close> the zero
  vector from the cutoff on and the floored log of \<open>trans_B[f][:, :, action(t, f)]\<close> applied
  to \<open>qs_seq[t+1][f]\<close> before it. The action entries the visit reads are taken to index
  a slice.
\<close>

theorem direct_rule_visit:
  assumes "c = make_ctx calc_free_energy spm_norm num_states B ll_seq policy prev_actions prior
                 False tau last_timestep"
    and "f < length num_states"
    and "t = 0 \<or> valid_action B (c_policy c) (t - 1) f"
    and "c_future_cutoff c \<le> int t \<or> valid_action B (c_policy c) t f"
  shows "visit c t f (qs_seq, F) =
     Inr (qs_seq[t := (qs_seq ! t)[f := softmax (vadd (vadd
            (if t < length ll_seq then log_floor (spm_dot (ll_seq ! t) (qs_seq ! t) f)
             else replicate (num_states ! f) 0)
            (if t = 0 then log_floor (make_prior num_states prior ! f)
             else log_floor (mat_vec (B ! f ! action (c_policy c) (t - 1) f)
                              (qs_seq ! (t - 1) ! f))))
            (if c_future_cutoff c \<le> int t then replicate (num_states ! f) 0
             else log_floor (mat_vec (spm_norm (transpose (B ! f ! action (c_policy c) t f)))
                              (qs_seq ! (t + 1) ! f))))]], F)"
proof -
  have p: "past_message (c_B c) (c_policy c) (c_prior c) qs_seq t f =
             Inr (if t = 0 then log_floor (make_prior num_states prior ! f)
                  else log_floor (mat_vec (B ! f ! action (c_policy c) (t - 1) f)
                                    (qs_seq ! (t - 1) ! f)))"
    using assms(1,3) by (cases "t = 0") (simp_all add: past_message_first past_message_valid)
  have u: "future_message (c_trans_B c) (c_policy c) (c_qs_T c) (c_future_cutoff c) qs_seq t f =
             Inr (if c_future_cutoff c \<le> int t then replicate (num_states ! f) 0
                  else log_floor (mat_vec (spm_norm (transpose (B ! f ! action (c_policy c) t f)))
                                    (qs_seq ! (t + 1) ! f)))"
    using assms(1,2,4)
    by (cases "c_future_cutoff c \<le> int t")
       (simp_all add: future_message_terminal future_message_valid make_qs_T_nth)
  have s: "c_num_states c = num_states" "c_ll_seq c = ll_seq" "\<not> c_grad_descent c"
    using assms(1) by simp_all
  show ?thesis
    by (simp add: visit_def p u s likelihood_message_def direct_update_def set_belief_def)
qed

theorem direct_rule_visit_witness:
  "visit (example_ctx False) 0 0 (init_qs_seq [2] 3, 0) =
     Inr ([[softmax [ln (1 + 1 / 10 ^ 16) + ln (1 / 4 + 1 / 10 ^ 16) + ln (1 / 2 + 1 / 10 ^ 16),
                     ln (1 + 1 / 10 ^ 16) + ln (3 / 4 + 1 / 10 ^ 16) + ln (1 / 2 + 1 / 10 ^ 16)]],
           [[1 / 2, 1 / 2]], [[1 / 2, 1 / 2]]], 0)"
proof -
  have c: "example_ctx False = make_ctx kl_free_energy normalize_columns [2] example_B [example_ll]
        \<lparr>shape1 = 1, rows = [[0], [0]]\<rparr> None (Some [[1/4, 3/4]]) False (1/4) False"
    by (simp add: example_ctx_def)
  have f: "(0::nat) < length [2::nat]"
    by simp
  have p: "(0::nat) = 0 \<or> valid_action example_B (c_policy (example_ctx False)) (0 - 1) 0"
    by simp
  have u: "c_future_cutoff (example_ctx False) \<le> int 0
           \<or> valid_action example_B (c_policy (example_ctx False)) 0 0"
    by (simp add: example_ctx_valid_action)
  have a: "action (c_policy (example_ctx False)) 0 0 = 0"
    by (simp add: example_ctx_def action_def eval_defs)
  have k: "c_future_cutoff (example_ctx False) = 1"
    by (simp add: example_ctx_def eval_defs)
  show ?thesis
    unfolding direct_rule_visit [OF c f p u] a k
    by (simp add: eval_defs example_B_def example_ll_def spm_dot_def vadd_def)
qed

subsection \<open>The gradient-descent rule\<close>

text \<open>
  C4. With \<^verbatim>\<open>grad_descent\<close> true, the visit of timestep \<open>t\<close> and factor \<open>f\<close> computes
  \<open>lnqs = log(qs_seq[t][f] + 1e-16)\<close>, \<open>coeff = 1\<close> from the cutoff on and \<open>2\<close> before it,
  the residual \<open>coeff * lnA + lnB_past + lnB_future - coeff * lnqs\<close> less its mean, the step
  \<open>lnqs + tau * err\<close>, whose softmax is the new belief, and adds to \<open>F\<close> the term
  \<open>0.5 * lnqs.dot(0.5 * err)\<close> at \<open>t = 0\<close> and at \<open>t = infer_len - 1\<close>, and
  \<open>lnqs.dot(0.5 * (err - ((num_factors - 1) / num_factors) * lnA))\<close> at the other timesteps,
  with the \<open>lnqs\<close> after the step.
\<close>

theorem grad_descent_visit:
  assumes "c = make_ctx calc_free_energy spm_norm num_states B ll_seq policy prev_actions prior
                 True tau last_timestep"
    and "f < length num_states"
    and "t = 0 \<or> valid_action B (c_policy c) (t - 1) f"
    and "c_future_cutoff c \<le> int t \<or> valid_action B (c_policy c) t f"
  shows "visit c t f (qs_seq, F) =
     (let lnA = (if t < length ll_seq then log_floor (spm_dot (ll_seq ! t) (qs_seq ! t) f)
                 else replicate (num_states ! f) 0);
          lnB_past = (if t = 0 then log_floor (make_prior num_states prior ! f)
                      else log_floor (mat_vec (B ! f ! action (c_policy c) (t - 1) f)
                                        (qs_seq ! (t - 1) ! f)));
          lnB_future = (if c_future_cutoff c \<le> int t then replicate (num_states ! f) 0
                        else log_floor (mat_vec (spm_norm (transpose (B ! f ! action (c_policy c) t f)))
                                          (qs_seq ! (t + 1) ! f)));
          lnqs = log_floor (qs_seq ! t ! f);
          coeff = (if c_future_cutoff c \<le> int t then 1 else 2);
          residual = vsub (vadd (vadd (smul coeff lnA) lnB_past) lnB_future) (smul coeff lnqs);
          err = map (\<lambda>e. e - mean residual) residual;
          lnqs' = vadd lnqs (smul tau err)
      in Inr (qs_seq[t := (qs_seq ! t)[f := softmax lnqs']],
              F + (if t = 0 \<or> int t = c_infer_len c - 1 then 0.5 * dot lnqs' (smul 0.5 err)
                   else dot lnqs' (smul 0.5 (vsub err
                          (smul ((real (length num_states) - 1) / real (length num_states)) lnA))))))"
proof -
  have p: "past_message (c_B c) (c_policy c) (c_prior c) qs_seq t f =
             Inr (if t = 0 then log_floor (make_prior num_states prior ! f)
                  else log_floor (mat_vec (B ! f ! action (c_policy c) (t - 1) f)
                                    (qs_seq ! (t - 1) ! f)))"
    using assms(1,3) by (cases "t = 0") (simp_all add: past_message_first past_message_valid)
  have u: "future_message (c_trans_B c) (c_policy c) (c_qs_T c) (c_future_cutoff c) qs_seq t f =
             Inr (if c_future_cutoff c \<le> int t then replicate (num_states ! f) 0
                  else log_floor (mat_vec (spm_norm (transpose (B ! f ! action (c_policy c) t f)))
                                    (qs_seq ! (t + 1) ! f)))"
    using assms(1,2,4)
    by (cases "c_future_cutoff c \<le> int t")
       (simp_all add: future_message_terminal future_message_valid make_qs_T_nth)
  have n: "real_of_int (int (length num_states) - 1) = real (length num_states) - 1"
    by simp
  have s: "c_num_states c = num_states" "c_ll_seq c = ll_seq" "c_grad_descent c" "c_tau c = tau"
    using assms(1) by simp_all
  show ?thesis
    by (simp add: visit_def p u s likelihood_message_def grad_update_def set_belief_def Let_def
        sdiv_smul n)
qed

theorem grad_descent_visit_witness:
  "visit (example_ctx True) 0 0 (init_qs_seq [2] 3, 0) =
     (let lnA = [ln (1 + 1 / 10 ^ 16), ln (1 + 1 / 10 ^ 16)];
          lnB_past = [ln (1 / 4 + 1 / 10 ^ 16), ln (3 / 4 + 1 / 10 ^ 16)];
          lnB_future = [ln (1 / 2 + 1 / 10 ^ 16), ln (1 / 2 + 1 / 10 ^ 16)];
          lnqs = [ln (1 / 2 + 1 / 10 ^ 16), ln (1 / 2 + 1 / 10 ^ 16)];
          residual = vsub (vadd (vadd (smul 2 lnA) lnB_past) lnB_future) (smul 2 lnqs);
          err = map (\<lambda>e. e - mean residual) residual;
          lnqs' = vadd lnqs (smul (1 / 4) err)
      in Inr ([[softmax lnqs'], [[1 / 2, 1 / 2]], [[1 / 2, 1 / 2]]],
              0.5 * dot lnqs' (smul 0.5 err)))"
proof -
  have c: "example_ctx True = make_ctx kl_free_energy normalize_columns [2] example_B [example_ll]
        \<lparr>shape1 = 1, rows = [[0], [0]]\<rparr> None (Some [[1/4, 3/4]]) True (1/4) False"
    by (simp add: example_ctx_def)
  have f: "(0::nat) < length [2::nat]"
    by simp
  have p: "(0::nat) = 0 \<or> valid_action example_B (c_policy (example_ctx True)) (0 - 1) 0"
    by simp
  have u: "c_future_cutoff (example_ctx True) \<le> int 0
           \<or> valid_action example_B (c_policy (example_ctx True)) 0 0"
    by (simp add: example_ctx_valid_action)
  have a: "action (c_policy (example_ctx True)) 0 0 = 0"
    by (simp add: example_ctx_def action_def eval_defs)
  have k: "c_future_cutoff (example_ctx True) = 1"
    by (simp add: example_ctx_def eval_defs)
  show ?thesis
    unfolding grad_descent_visit [OF c f p u] a k
    by (simp add: eval_defs example_B_def example_ll_def spm_dot_def)
qed

subsection \<open>The window and the cutoff\<close>

text \<open>
  C2, as the source has it. \<open>infer_len\<close> is \<open>past_len + future_len\<close>, less one when
  \<^verbatim>\<open>last_timestep\<close> is set, and \<open>future_cutoff\<close> is \<open>past_len + future_len - 2\<close>. Every
  timestep \<open>t \<ge> future_cutoff\<close> uses the terminal zero message, the timestep
  \<open>future_cutoff\<close> itself included: the last timestep whose future message comes from
  \<open>trans_B\<close> and the successor belief is \<open>future_cutoff - 1\<close>.
\<close>

theorem window_and_future_cutoff:
  assumes "c = make_ctx calc_free_energy spm_norm num_states B ll_seq policy prev_actions prior
                 grad_descent tau last_timestep"
    and "past_len = length ll_seq" and "future_len = length (rows policy)"
  shows "c_infer_len c = (if last_timestep then int past_len + int future_len - 1
                          else int past_len + int future_len)
       \<and> c_future_cutoff c = int past_len + int future_len - 2
       \<and> (\<forall>t f. f < length num_states \<longrightarrow> int t \<ge> c_future_cutoff c \<longrightarrow>
             future_message (c_trans_B c) (c_policy c) (c_qs_T c) (c_future_cutoff c) qs_seq t f
               = Inr (replicate (num_states ! f) 0))
       \<and> (\<forall>t f. int t \<le> c_future_cutoff c - 1 \<longrightarrow> valid_action B (c_policy c) t f \<longrightarrow>
             future_message (c_trans_B c) (c_policy c) (c_qs_T c) (c_future_cutoff c) qs_seq t f
               = Inr (log_floor (mat_vec (spm_norm (transpose (B ! f ! action (c_policy c) t f)))
                                   (qs_seq ! (t + 1) ! f))))"
  using assms
  by (simp add: infer_len_def future_cutoff_def future_message_terminal future_message_valid
      make_qs_T_nth)

theorem window_and_future_cutoff_witness:
  "c_infer_len cutoff_example = 4 \<and> c_future_cutoff cutoff_example = 2
   \<and> future_message (c_trans_B cutoff_example) (c_policy cutoff_example) (c_qs_T cutoff_example)
        (c_future_cutoff cutoff_example) (init_qs_seq [2] 4) 3 0 = Inr [0, 0]
   \<and> future_message (c_trans_B cutoff_example) (c_policy cutoff_example) (c_qs_T cutoff_example)
        (c_future_cutoff cutoff_example) (init_qs_seq [2] 4) 1 0
        = Inr [ln (1 / 2 + 1 / 10 ^ 16), ln (1 / 2 + 1 / 10 ^ 16)]"
proof -
  have c: "cutoff_example = make_ctx kl_free_energy normalize_columns [2] example_B
             [example_ll, example_ll] \<lparr>shape1 = 1, rows = [[0], [0]]\<rparr> None None False (1/4) False"
    by (simp add: cutoff_example_def)
  have p: "(2::nat) = length [example_ll, example_ll]"
    and q: "(2::nat) = length (rows \<lparr>shape1 = 1, rows = [[0], [0::real]]\<rparr>)"
    by simp_all
  note w = window_and_future_cutoff [OF c p q, of "init_qs_seq [2] 4"]
  have v: "valid_action example_B (c_policy cutoff_example) 1 0"
    by (simp add: cutoff_example_def valid_action_def eval_defs example_B_def)
  have a: "action (c_policy cutoff_example) 1 0 = 0"
    by (simp add: cutoff_example_def action_def eval_defs)
  from w have i: "c_infer_len cutoff_example = 4" and k: "c_future_cutoff cutoff_example = 2"
    by simp_all
  from w k have t: "future_message (c_trans_B cutoff_example) (c_policy cutoff_example)
        (c_qs_T cutoff_example) (c_future_cutoff cutoff_example) (init_qs_seq [2] 4) 3 0 = Inr [0, 0]"
    by (simp add: replicate_numeral)
  from w k v have "future_message (c_trans_B cutoff_example) (c_policy cutoff_example)
        (c_qs_T cutoff_example) (c_future_cutoff cutoff_example) (init_qs_seq [2] 4) 1 0
        = Inr (log_floor (mat_vec (normalize_columns (transpose (example_B ! 0 !
                 action (c_policy cutoff_example) 1 0))) (init_qs_seq [2] 4 ! (1 + 1) ! 0)))"
    by simp
  then have g: "future_message (c_trans_B cutoff_example) (c_policy cutoff_example)
        (c_qs_T cutoff_example) (c_future_cutoff cutoff_example) (init_qs_seq [2] 4) 1 0
        = Inr [ln (1 / 2 + 1 / 10 ^ 16), ln (1 / 2 + 1 / 10 ^ 16)]"
    unfolding a by (simp add: eval_defs example_B_def)
  from i k t g show ?thesis
    by blast
qed

text \<open>
  The claim as stated fails: with two past and two future timesteps the cutoff is \<open>2\<close>, and
  at \<open>t = 2\<close>, which has the successor \<open>t = 3\<close> in the window, the future message is the
  zero vector and not the one computed from \<open>trans_B\<close> and \<open>qs_seq[3]\<close>.
\<close>

theorem cutoff_timestep_counterexample:
  "c_infer_len cutoff_example = 4 \<and> c_future_cutoff cutoff_example = 2
   \<and> future_message (c_trans_B cutoff_example) (c_policy cutoff_example) (c_qs_T cutoff_example)
        (c_future_cutoff cutoff_example) (init_qs_seq [2] 4) 2 0 = Inr [0, 0]
   \<and> future_message (c_trans_B cutoff_example) (c_policy cutoff_example) (c_qs_T cutoff_example)
        (c_future_cutoff cutoff_example) (init_qs_seq [2] 4) 2 0
        \<noteq> Inr (log_floor (mat_vec (c_trans_B cutoff_example ! 0 ! 0) (init_qs_seq [2] 4 ! 3 ! 0)))"
  by (simp add: cutoff_example_def eval_defs example_B_def)

subsection \<open>One future timestep with \<^verbatim>\<open>last_timestep\<close>\<close>

text \<open>
  C6, as the source has it. With \<open>future_len = 1\<close> and \<^verbatim>\<open>last_timestep\<close> set, the window
  has \<open>past_len\<close> timesteps and the cutoff is \<open>past_len - 1\<close>, below \<open>0\<close> only when there
  is no past timestep. The last timestep of the window uses the terminal message and
  every earlier one the message computed from \<open>trans_B\<close>; all timesteps of the window use the
  terminal message when \<open>past_len \<le> 1\<close>.
\<close>

theorem single_step_policy_last_timestep:
  assumes "c = make_ctx calc_free_energy spm_norm num_states B ll_seq policy prev_actions prior
                 grad_descent tau True"
    and "length (rows policy) = 1"
  shows "c_infer_len c = int (length ll_seq)
       \<and> c_future_cutoff c = int (length ll_seq) - 1
       \<and> (c_future_cutoff c < 0 \<longleftrightarrow> ll_seq = [])
       \<and> (\<forall>t f. f < length num_states \<longrightarrow> t + 1 = length ll_seq \<longrightarrow>
             future_message (c_trans_B c) (c_policy c) (c_qs_T c) (c_future_cutoff c) qs_seq t f
               = Inr (replicate (num_states ! f) 0))
       \<and> (\<forall>t f. t + 1 < length ll_seq \<longrightarrow> valid_action B (c_policy c) t f \<longrightarrow>
             future_message (c_trans_B c) (c_policy c) (c_qs_T c) (c_future_cutoff c) qs_seq t f
               = Inr (log_floor (mat_vec (spm_norm (transpose (B ! f ! action (c_policy c) t f)))
                                   (qs_seq ! (t + 1) ! f))))
       \<and> (length ll_seq \<le> 1 \<longrightarrow>
            (\<forall>t f. int t < c_infer_len c \<longrightarrow> f < length num_states \<longrightarrow>
               future_message (c_trans_B c) (c_policy c) (c_qs_T c) (c_future_cutoff c) qs_seq t f
                 = Inr (replicate (num_states ! f) 0)))"
  using assms
  by (simp add: infer_len_def future_cutoff_def future_message_terminal future_message_valid
      make_qs_T_nth)

theorem single_step_policy_last_timestep_witness:
  "c_infer_len collapse_example = 2 \<and> c_future_cutoff collapse_example = 1
   \<and> future_message (c_trans_B collapse_example) (c_policy collapse_example)
        (c_qs_T collapse_example) (c_future_cutoff collapse_example) (init_qs_seq [2] 2) 1 0
        = Inr [0, 0]
   \<and> future_message (c_trans_B collapse_example) (c_policy collapse_example)
        (c_qs_T collapse_example) (c_future_cutoff collapse_example) (init_qs_seq [2] 2) 0 0
        = Inr [ln (1 / 2 + 1 / 10 ^ 16), ln (1 / 2 + 1 / 10 ^ 16)]"
proof -
  have c: "collapse_example = make_ctx kl_free_energy normalize_columns [2] example_B
             [example_ll, example_ll] \<lparr>shape1 = 1, rows = [[0]]\<rparr> None None False (1/4) True"
    by (simp add: collapse_example_def)
  have q: "length (rows \<lparr>shape1 = 1, rows = [[0::real]]\<rparr>) = 1"
    by simp
  note w = single_step_policy_last_timestep [OF c q, of "init_qs_seq [2] 2"]
  have v: "valid_action example_B (c_policy collapse_example) 0 0"
    by (simp add: collapse_example_def valid_action_def eval_defs example_B_def)
  have a: "action (c_policy collapse_example) 0 0 = 0"
    by (simp add: collapse_example_def action_def eval_defs)
  from w have i: "c_infer_len collapse_example = 2" and k: "c_future_cutoff collapse_example = 1"
    by simp_all
  from w k have t: "future_message (c_trans_B collapse_example) (c_policy collapse_example)
        (c_qs_T collapse_example) (c_future_cutoff collapse_example) (init_qs_seq [2] 2) 1 0
        = Inr [0, 0]"
    by (simp add: replicate_numeral)
  from w k v have "future_message (c_trans_B collapse_example) (c_policy collapse_example)
        (c_qs_T collapse_example) (c_future_cutoff collapse_example) (init_qs_seq [2] 2) 0 0
        = Inr (log_floor (mat_vec (normalize_columns (transpose (example_B ! 0 !
                 action (c_policy collapse_example) 0 0))) (init_qs_seq [2] 2 ! (0 + 1) ! 0)))"
    by simp
  then have g: "future_message (c_trans_B collapse_example) (c_policy collapse_example)
        (c_qs_T collapse_example) (c_future_cutoff collapse_example) (init_qs_seq [2] 2) 0 0
        = Inr [ln (1 / 2 + 1 / 10 ^ 16), ln (1 / 2 + 1 / 10 ^ 16)]"
    unfolding a by (simp add: eval_defs example_B_def)
  from i k t g show ?thesis
    by blast
qed

text \<open>
  The claim as stated fails: with two past timesteps the cutoff is \<open>1\<close>, and the future
  message of \<open>t = 0\<close> is computed from \<open>trans_B\<close> and \<open>qs_seq[1]\<close>; it is not the terminal
  message.
\<close>

theorem collapse_counterexample:
  "c_infer_len collapse_example = 2 \<and> c_future_cutoff collapse_example = 1
   \<and> future_message (c_trans_B collapse_example) (c_policy collapse_example)
        (c_qs_T collapse_example) (c_future_cutoff collapse_example) (init_qs_seq [2] 2) 0 0
        = Inr (log_floor (mat_vec (c_trans_B collapse_example ! 0 ! 0) (init_qs_seq [2] 2 ! 1 ! 0)))
   \<and> future_message (c_trans_B collapse_example) (c_policy collapse_example)
        (c_qs_T collapse_example) (c_future_cutoff collapse_example) (init_qs_seq [2] 2) 0 0
        \<noteq> Inr (c_qs_T collapse_example ! 0)"
  by (simp add: collapse_example_def eval_defs example_B_def)

subsection \<open>Lemmas on the loops\<close>

lemma bindE_Inr_iff: "bindE m k = Inr y \<longleftrightarrow> (\<exists>x. m = Inr x \<and> k x = Inr y)"
  by (cases m) simp_all

lemma bindE_Inl_iff: "bindE m k = Inl e \<longleftrightarrow> m = Inl e \<or> (\<exists>x. m = Inr x \<and> k x = Inl e)"
  by (cases m) simp_all

lemma fold_err_append:
  "fold_err step (xs @ ys) s = bindE (fold_err step xs s) (fold_err step ys)"
proof (induction xs arbitrary: s)
  case Nil
  show ?case by simp
next
  case (Cons x xs)
  show ?case by (cases "step x s") (simp_all add: Cons.IH)
qed

lemma fold_err_invariant_all:
  "\<forall>x \<in> set xs. \<forall>s s'. I s \<longrightarrow> step x s = Inr s' \<longrightarrow> I s' \<Longrightarrow>
   I s \<Longrightarrow> fold_err step xs s = Inr s' \<Longrightarrow> I s'"
proof (induction xs arbitrary: s)
  case Nil
  then show ?case by simp
next
  case (Cons x xs)
  from Cons.prems(3) obtain s1 where 1: "step x s = Inr s1" and 2: "fold_err step xs s1 = Inr s'"
    by (auto simp: bindE_Inr_iff)
  from Cons.prems(1,2) 1 have 3: "I s1"
    by (meson list.set_intros(1))
  from Cons.prems(1) have 4: "\<forall>x \<in> set xs. \<forall>s s'. I s \<longrightarrow> step x s = Inr s' \<longrightarrow> I s'"
    by (meson list.set_intros(2))
  show ?case
    by (rule Cons.IH [OF 4 3 2])
qed

lemma fold_err_invariant:
  assumes "\<And>x s s'. x \<in> set xs \<Longrightarrow> I s \<Longrightarrow> step x s = Inr s' \<Longrightarrow> I s'"
    and "I s" and "fold_err step xs s = Inr s'"
  shows "I s'"
  using fold_err_invariant_all [of xs I step s s'] assms by blast

lemma fold_err_succeeds:
  assumes "\<And>x s. x \<in> set xs \<Longrightarrow> \<exists>s'. step x s = Inr s'"
  shows "\<exists>s'. fold_err step xs s = Inr s'"
  using assms
proof (induction xs arbitrary: s)
  case Nil
  show ?case by simp
next
  case (Cons x xs)
  from Cons.prems [of x s] obtain s1 where "step x s = Inr s1"
    by auto
  with Cons.IH [of s1] Cons.prems show ?case
    by simp
qed

lemma fold_err_fails:
  assumes "x \<in> set xs"
    and "\<And>s. step x s = Inl E"
    and "\<And>y s e. step y s = Inl e \<Longrightarrow> e = E"
  shows "fold_err step xs s = Inl E"
  using assms(1)
proof (induction xs arbitrary: s)
  case Nil
  then show ?case by simp
next
  case (Cons y ys)
  show ?case
  proof (cases "step y s")
    case (Inl e)
    with assms(3) [of y s e] show ?thesis by simp
  next
    case (Inr s1)
    show ?thesis
    proof (cases "x = y")
      case True
      with assms(2) [of s] Inr show ?thesis by simp
    next
      case False
      with Cons.prems have "x \<in> set ys" by simp
      with Cons.IH [of s1] Inr show ?thesis by simp
    qed
  qed
qed

lemma fold_err_error:
  assumes "\<And>y s e. step y s = Inl e \<Longrightarrow> e = E" and "fold_err step xs s = Inl e"
  shows "e = E"
  using assms(2)
proof (induction xs arbitrary: s)
  case Nil
  then show ?case by simp
next
  case (Cons y ys)
  then show ?case
    by (cases "step y s") (auto dest: assms(1))
qed

lemmas run_defs = run_mmp_v2_def sweep_def timestep_def visit_def accumulate_def
  free_energy_term_def direct_update_def set_belief_def likelihood_message_def spm_dot_def
  eval_defs example_B_def example_ll_def vadd_def softmax_def kl_free_energy_def log_floor1_def
  Let_def upt_conv_Cons make_ctx_def

lemma ceiling_neg_one: "\<lceil>- 1 :: real\<rceil> = - 1"
  by (simp add: ceiling_eq_iff)

lemma ceiling_neg_half: "\<lceil>- (1 / 2) :: real\<rceil> = 0"
  by (simp add: ceiling_eq_iff)

subsection \<open>Action entries that are not integers\<close>

lemma py_int_of_int [simp]: "py_int (real_of_int k) = k"
  by (simp add: py_int_def)

lemma trunc_stacked_policy:
  "stacked_policy n (trunc_policy pol) (map_option trunc_policy prev)
     = trunc_policy (stacked_policy n pol prev)"
  by (cases prev) (simp_all add: stacked_policy_def trunc_policy_def trunc_rows_def py_int_def)

lemma columns_agree_trunc:
  "columns_agree (trunc_policy pol) (map_option trunc_policy prev) = columns_agree pol prev"
  by (cases prev) (simp_all add: columns_agree_def trunc_policy_def)

lemma full_policy_Inr:
  "full_policy n pol prev = Inr full \<longleftrightarrow> columns_agree pol prev \<and> full = stacked_policy n pol prev"
  by (auto simp: full_policy_def)

lemma policy_at_trunc:
  "bindE (policy_at (trunc_policy p) t f) (\<lambda>a. k (py_int a)) = bindE (policy_at p t f) (\<lambda>a. k (py_int a))"
  by (auto simp: policy_at_def trunc_policy_def trunc_rows_def)

lemma past_message_trunc:
  "past_message B (trunc_policy p) prior qs t f = past_message B p prior qs t f"
  unfolding past_message_def
  using policy_at_trunc [of p "t - 1" f "\<lambda>a. bindE (action_slice (B ! f) a) (\<lambda>M. Inr (log_floor (mat_vec M (qs ! (t - 1) ! f))))"]
  by simp

lemma future_message_trunc:
  "future_message TB (trunc_policy p) qs_T cutoff qs t f = future_message TB p qs_T cutoff qs t f"
  unfolding future_message_def
  using policy_at_trunc [of p t f "\<lambda>a. bindE (action_slice (TB ! f) a) (\<lambda>M. Inr (log_floor (mat_vec M (qs ! (t + 1) ! f))))"]
  by simp

lemma run_trunc:
  "run_mmp_v2 cfe nrm ns B ll (trunc_policy pol) (map_option trunc_policy prev) prior n gd tau lt
   = run_mmp_v2 cfe nrm ns B ll pol prev prior n gd tau lt"
proof -
  define c where "c = make_ctx cfe nrm ns B ll pol prev prior gd tau lt"
  define c' where
    "c' = make_ctx cfe nrm ns B ll (trunc_policy pol) (map_option trunc_policy prev) prior gd tau lt"
  have l: "length (rows (trunc_policy pol)) = length (rows pol)"
    by (simp add: trunc_policy_def trunc_rows_def)
  have p: "c_policy c' = trunc_policy (c_policy c)"
    by (simp add: c_def c'_def trunc_stacked_policy)
  have e: "c_free_energy c' = c_free_energy c" "c_num_states c' = c_num_states c" "c_B c' = c_B c"
    "c_trans_B c' = c_trans_B c" "c_ll_seq c' = c_ll_seq c" "c_prior c' = c_prior c"
    "c_qs_T c' = c_qs_T c" "c_grad_descent c' = c_grad_descent c" "c_tau c' = c_tau c"
    "c_infer_len c' = c_infer_len c" "c_future_cutoff c' = c_future_cutoff c"
    by (simp_all add: c_def c'_def l)
  have v: "visit c' t = visit c t" for t
    by (intro ext) (simp add: visit_def e p past_message_trunc future_message_trunc cong: if_cong)
  have t: "timestep c' = timestep c"
    by (intro ext) (simp add: timestep_def v e accumulate_def free_energy_term_def cong: if_cong)
  have s: "sweep c' = sweep c"
    by (intro ext) (simp add: sweep_def t e)
  show ?thesis
    unfolding run_eq c_def [symmetric] c'_def [symmetric] by (simp add: s l columns_agree_trunc)
qed

lemma visit_Inr:
  "past_message (c_B c) (c_policy c) (c_prior c) (fst s) t f = Inr p \<Longrightarrow>
   future_message (c_trans_B c) (c_policy c) (c_qs_T c) (c_future_cutoff c) (fst s) t f = Inr u \<Longrightarrow>
   \<exists>s'. visit c t f s = Inr s'"
  by (simp add: visit_def Let_def)

lemma visit_succeeds:
  assumes "c = make_ctx cfe nrm ns B ll pol prev prior gd tau lt"
    and "t = 0 \<or> valid_action B (c_policy c) (t - 1) f"
    and "c_future_cutoff c \<le> int t \<or> valid_action B (c_policy c) t f"
  shows "\<exists>s'. visit c t f s = Inr s'"
proof -
  have "\<exists>p. past_message (c_B c) (c_policy c) (c_prior c) (fst s) t f = Inr p"
    using assms(1,2) by (cases "t = 0") (simp_all add: past_message_first past_message_valid)
  moreover have "\<exists>u. future_message (c_trans_B c) (c_policy c) (c_qs_T c) (c_future_cutoff c)
                       (fst s) t f = Inr u"
    using assms(1,3)
    by (cases "c_future_cutoff c \<le> int t")
       (simp_all add: future_message_terminal future_message_valid)
  ultimately show ?thesis
    using visit_Inr [of c s t f] by blast
qed

lemma run_succeeds:
  assumes "0 \<le> infer_len (length ll) (length (rows pol)) lt"
    and "\<forall>r f. int r \<le> infer_len (length ll) (length (rows pol)) lt - 2 \<longrightarrow> f < length ns \<longrightarrow>
           valid_action B (stacked_policy (length ll) pol prev) r f"
    and "columns_agree pol prev"
  shows "\<exists>res. run_mmp_v2 cfe nrm ns B ll pol prev prior n gd tau lt = Inr res"
proof -
  define c where "c = make_ctx cfe nrm ns B ll pol prev prior gd tau lt"
  have v: "\<exists>s'. visit c t f s = Inr s'" if "t < nat (c_infer_len c)" "f < length ns" for t f s
  proof (rule visit_succeeds [OF c_def])
    show "t = 0 \<or> valid_action B (c_policy c) (t - 1) f"
      using that assms(2) [rule_format, of "t - 1" f] by (cases t) (simp_all add: c_def)
    show "c_future_cutoff c \<le> int t \<or> valid_action B (c_policy c) t f"
    proof (cases "c_future_cutoff c \<le> int t")
      case True
      then show ?thesis by simp
    next
      case False
      then have "int t \<le> infer_len (length ll) (length (rows pol)) lt - 2"
        by (simp add: c_def infer_len_def future_cutoff_def)
      with assms(2) that(2) show ?thesis
        by (simp add: c_def)
    qed
  qed
  have t: "\<exists>s'. timestep c t s = Inr s'" if "t < nat (c_infer_len c)" for t s
  proof -
    have "\<exists>s'. fold_err (visit c t) [0..<length (c_num_states c)] s = Inr s'"
    proof (rule fold_err_succeeds)
      fix f s0
      assume "f \<in> set [0..<length (c_num_states c)]"
      then have "f < length ns"
        by (simp add: c_def)
      with that show "\<exists>s'. visit c t f s0 = Inr s'"
        by (rule v)
    qed
    then show ?thesis
      by (auto simp: timestep_def)
  qed
  have s: "\<exists>s'. sweep c s = Inr s'" for s
    unfolding sweep_def
  proof (rule fold_err_succeeds)
    fix t s0
    assume "t \<in> set [0..<nat (c_infer_len c)]"
    then have "t < nat (c_infer_len c)"
      by simp
    then show "\<exists>s'. timestep c t s0 = Inr s'"
      by (rule t)
  qed
  have "\<exists>s'. fold_err (\<lambda>itr. sweep c) [0..<nat n] s0 = Inr s'" for s0
    by (rule fold_err_succeeds) (rule s)
  then show ?thesis
    unfolding run_eq c_def [symmetric] using assms(1,3) by simp
qed

text \<open>
  C10. Every action entry goes through \<^verbatim>\<open>int()\<close> before it indexes \<open>B\<close> or \<open>trans_B\<close>
  (lines 85 and 92). When the window is not empty of negative length, the stacking of line
  67 returns the full trajectory, and the entries of it that the loops read (rows \<open>0\<close> to
  \<open>infer_len - 2\<close>, factors below \<open>num_factors\<close>) have truncations that are valid indices,
  the call returns, and it returns what the call with every entry of \<^verbatim>\<open>policy\<close> and
  \<^verbatim>\<open>prev_actions\<close> replaced by its truncation returns.
\<close>

theorem fractional_actions_truncate:
  assumes "0 \<le> infer_len (length ll_seq) (length (rows policy)) last_timestep"
    and "full_policy (length ll_seq) policy prev_actions = Inr full"
    and "\<forall>r f. int r \<le> infer_len (length ll_seq) (length (rows policy)) last_timestep - 2 \<longrightarrow>
           f < length num_states \<longrightarrow> valid_action B full r f"
  shows "\<exists>res. run_mmp_v2 calc_free_energy spm_norm num_states B ll_seq policy prev_actions prior
                   num_iter grad_descent tau last_timestep = Inr res
             \<and> run_mmp_v2 calc_free_energy spm_norm num_states B ll_seq (trunc_policy policy)
                   (map_option trunc_policy prev_actions) prior
                   num_iter grad_descent tau last_timestep = Inr res"
proof -
  from assms(2) have k: "columns_agree policy prev_actions"
    and f: "full = stacked_policy (length ll_seq) policy prev_actions"
    by (simp_all add: full_policy_Inr)
  from assms(3) have "\<forall>r f. int r \<le> infer_len (length ll_seq) (length (rows policy)) last_timestep - 2
           \<longrightarrow> f < length num_states
           \<longrightarrow> valid_action B (stacked_policy (length ll_seq) policy prev_actions) r f"
    by (simp add: f)
  from run_succeeds [OF assms(1) this k, of calc_free_energy spm_norm prior num_iter grad_descent tau]
  show ?thesis
    by (simp add: run_trunc)
qed

theorem fractional_actions_truncate_witness:
  "\<exists>res. run_mmp_v2 kl_free_energy normalize_columns [2] example_B [example_ll]
            \<lparr>shape1 = 1, rows = [[1 / 2], [- 1 / 2]]\<rparr> (Some \<lparr>shape1 = 1, rows = [[9 / 10]]\<rparr>) None
            2 False (1/4) False
            = Inr res
        \<and> run_mmp_v2 kl_free_energy normalize_columns [2] example_B [example_ll]
            \<lparr>shape1 = 1, rows = [[0], [0]]\<rparr> (Some \<lparr>shape1 = 1, rows = [[0]]\<rparr>) None
            2 False (1/4) False
            = Inr res"
proof -
  let ?p = "\<lparr>shape1 = 1, rows = [[1 / 2], [- 1 / 2 :: real]]\<rparr>"
  let ?q = "\<lparr>shape1 = 1, rows = [[9 / 10 :: real]]\<rparr>"
  let ?full = "\<lparr>shape1 = 1, rows = [[9 / 10], [1 / 2], [- 1 / 2 :: real]]\<rparr>"
  have i: "0 \<le> infer_len (length [example_ll]) (length (rows ?p)) False"
    by (simp add: infer_len_def)
  have s: "full_policy (length [example_ll]) ?p (Some ?q) = Inr ?full"
    by (simp add: full_policy_def columns_agree_def stacked_policy_def)
  have v: "\<forall>r f. int r \<le> infer_len (length [example_ll]) (length (rows ?p)) False - 2 \<longrightarrow>
             f < length [2::nat] \<longrightarrow> valid_action example_B ?full r f"
  proof (intro allI impI)
    fix r f :: nat
    assume "int r \<le> infer_len (length [example_ll]) (length (rows ?p)) False - 2"
      and "f < length [2::nat]"
    then have "r = 0 \<or> r = 1" and "f = 0"
      by (auto simp: infer_len_def)
    then show "valid_action example_B ?full r f"
      by (auto simp: valid_action_def example_B_def py_int_def)
  qed
  have t: "trunc_policy ?p = \<lparr>shape1 = 1, rows = [[0], [0]]\<rparr>"
    "map_option trunc_policy (Some ?q) = Some \<lparr>shape1 = 1, rows = [[0]]\<rparr>"
    by (simp_all add: trunc_policy_def trunc_rows_def py_int_def ceiling_neg_half)
  from fractional_actions_truncate [OF i s v, of kl_free_energy normalize_columns None 2 False "1/4"]
  show ?thesis
    unfolding t by simp
qed

subsection \<open>Action entries out of range\<close>

lemma policy_at_error: "policy_at p t f = Inl e \<Longrightarrow> e = IndexError"
  by (simp add: policy_at_def split: if_splits)

lemma action_slice_error: "action_slice X a = Inl e \<Longrightarrow> e = IndexError"
  by (simp add: action_slice_def Let_def split: if_splits)

lemma past_message_error: "past_message B p prior qs t f = Inl e \<Longrightarrow> e = IndexError"
  by (auto simp: past_message_def bindE_Inl_iff split: if_splits
      dest: policy_at_error action_slice_error)

lemma future_message_error: "future_message TB p qs_T k qs t f = Inl e \<Longrightarrow> e = IndexError"
  by (auto simp: future_message_def bindE_Inl_iff split: if_splits
      dest: policy_at_error action_slice_error)

lemma visit_error: "visit c t f s = Inl e \<Longrightarrow> e = IndexError"
  by (auto simp: visit_def Let_def bindE_Inl_iff dest: past_message_error future_message_error)

lemma timestep_error:
  assumes "timestep c t s = Inl e"
  shows "e = IndexError"
proof -
  from assms have "fold_err (visit c t) [0..<length (c_num_states c)] s = Inl e"
    by (simp add: timestep_def bindE_Inl_iff)
  then show ?thesis
    by (rule fold_err_error [rotated]) (rule visit_error)
qed

lemma sweep_error:
  assumes "sweep c s = Inl e"
  shows "e = IndexError"
  using assms unfolding sweep_def by (rule fold_err_error [rotated]) (rule timestep_error)

lemma past_message_out_of_range:
  "out_of_range B p r f \<Longrightarrow> past_message B p prior qs (Suc r) f = Inl IndexError"
  by (auto simp: past_message_def out_of_range_def policy_at_def action_slice_def Let_def)

lemma action_slice_out_of_range:
  "out_of_range B p r f \<Longrightarrow> action_slice (B ! f) (py_int (rows p ! r ! f)) = Inl IndexError"
  by (auto simp: out_of_range_def action_slice_def Let_def)

lemma visit_fails_in_message:
  assumes "visit c t f s = Inl e"
  shows "past_message (c_B c) (c_policy c) (c_prior c) (fst s) t f = Inl e
         \<or> future_message (c_trans_B c) (c_policy c) (c_qs_T c) (c_future_cutoff c) (fst s) t f
             = Inl e"
  using assms by (auto simp: visit_def Let_def bindE_Inl_iff)

lemma past_message_fails_at_B:
  assumes "trajectory_covers p il k" "int t < il" "f < k"
    and "past_message B p prior qs t f = Inl e"
  shows "action_slice (B ! f) (py_int (rows p ! (t - 1) ! f)) = Inl e"
proof -
  from assms(4) have t: "0 < t"
    by (auto simp: past_message_def split: if_splits)
  with assms(1-3) have "t - 1 < length (rows p) \<and> f < length (rows p ! (t - 1))"
    by (simp add: trajectory_covers_def)
  then have "policy_at p (t - 1) f = Inr (rows p ! (t - 1) ! f)"
    by (simp add: policy_at_def)
  with assms(4) t show ?thesis
    by (auto simp: past_message_def bindE_Inl_iff)
qed

lemma future_message_fails_at_trans_B:
  assumes "trajectory_covers p il k" "cutoff \<le> il - 1" "f < k"
    and "future_message TB p qs_T cutoff qs t f = Inl e"
  shows "action_slice (TB ! f) (py_int (rows p ! t ! f)) = Inl e"
proof -
  from assms(4) have t: "int t < cutoff"
    by (auto simp: future_message_def split: if_splits)
  with assms(1-3) have "t < length (rows p) \<and> f < length (rows p ! t)"
    by (simp add: trajectory_covers_def)
  then have "policy_at p t f = Inr (rows p ! t ! f)"
    by (simp add: policy_at_def)
  with assms(4) t show ?thesis
    by (auto simp: future_message_def bindE_Inl_iff)
qed

text \<open>
  C9, as the source has it. The source checks no action; an entry raises only when it
  is read and numpy refuses it. When the stacking of line 67 returns the full trajectory
  and there is at least one sweep, an entry of the trajectory at a row
  \<open>r \<le> infer_len - 2\<close> and a factor \<open>f < num_factors\<close> whose \<^verbatim>\<open>int()\<close> is at least
  \<open>num_actions[f]\<close> or below \<open>- num_actions[f]\<close> makes the call fail with IndexError:
  indexing \<open>B[f]\<close> with that action raises, so line 85 raises at timestep \<open>r + 1\<close> and
  factor \<open>f\<close> whatever the beliefs are. A visit raises only in its past message (line 85)
  or its future message (line 92), and when the trajectory has every entry the loops read,
  what raises there is the index into \<open>B[f]\<close> or into \<open>trans_B[f]\<close>.
\<close>

theorem invalid_action_index_raises:
  assumes "1 \<le> num_iter"
    and "full_policy (length ll_seq) policy prev_actions = Inr full"
    and "int r \<le> infer_len (length ll_seq) (length (rows policy)) last_timestep - 2"
    and "f < length num_states"
    and "out_of_range B full r f"
    and "c = make_ctx calc_free_energy spm_norm num_states B ll_seq policy prev_actions
               prior grad_descent tau last_timestep"
  shows "run_mmp_v2 calc_free_energy spm_norm num_states B ll_seq policy prev_actions prior
           num_iter grad_descent tau last_timestep = Inl IndexError
       \<and> action_slice (B ! f) (py_int (rows full ! r ! f)) = Inl IndexError
       \<and> (\<forall>s. visit c (Suc r) f s = Inl IndexError
              \<and> past_message (c_B c) (c_policy c) (c_prior c) (fst s) (Suc r) f = Inl IndexError)
       \<and> (\<forall>t g s e. visit c t g s = Inl e \<longrightarrow>
              past_message (c_B c) (c_policy c) (c_prior c) (fst s) t g = Inl e
              \<or> future_message (c_trans_B c) (c_policy c) (c_qs_T c) (c_future_cutoff c) (fst s) t g
                  = Inl e)
       \<and> (trajectory_covers full (c_infer_len c) (length num_states) \<longrightarrow>
            (\<forall>t g qs e. int t < c_infer_len c \<longrightarrow> g < length num_states \<longrightarrow>
               (past_message (c_B c) (c_policy c) (c_prior c) qs t g = Inl e \<longrightarrow>
                  action_slice (B ! g) (py_int (rows full ! (t - 1) ! g)) = Inl e)
               \<and> (future_message (c_trans_B c) (c_policy c) (c_qs_T c) (c_future_cutoff c) qs t g
                    = Inl e \<longrightarrow>
                  action_slice (make_trans_B spm_norm B ! g) (py_int (rows full ! t ! g)) = Inl e)))"
proof -
  from assms(2) have k: "columns_agree policy prev_actions"
    and fp: "full = stacked_policy (length ll_seq) policy prev_actions"
    by (simp_all add: full_policy_Inr)
  have cp: "c_policy c = full" "c_B c = B" "c_trans_B c = make_trans_B spm_norm B"
    by (simp_all add: assms(6) fp)
  have p: "past_message (c_B c) (c_policy c) (c_prior c) qs (Suc r) f = Inl IndexError" for qs
    using assms(5) by (simp add: cp past_message_out_of_range)
  then have v: "visit c (Suc r) f s = Inl IndexError" for s
    by (simp add: visit_def)
  have "fold_err (visit c (Suc r)) [0..<length (c_num_states c)] s = Inl IndexError" for s
    by (rule fold_err_fails [where x = f]) (use assms(4) v visit_error in \<open>auto simp: assms(6)\<close>)
  then have t: "timestep c (Suc r) s = Inl IndexError" for s
    by (simp add: timestep_def)
  have i: "Suc r < nat (c_infer_len c)"
    using assms(3) by (simp add: assms(6))
  have s: "sweep c s = Inl IndexError" for s
    unfolding sweep_def
    by (rule fold_err_fails [where x = "Suc r"]) (use i t timestep_error in auto)
  have "fold_err (\<lambda>itr. sweep c) [0..<nat num_iter] s0 = Inl IndexError" for s0
    by (rule fold_err_fails [where x = 0]) (use assms(1) s sweep_error in auto)
  moreover have "\<not> infer_len (length ll_seq) (length (rows policy)) last_timestep < 0"
    using assms(3) by simp
  ultimately have 1: "run_mmp_v2 calc_free_energy spm_norm num_states B ll_seq policy prev_actions
           prior num_iter grad_descent tau last_timestep = Inl IndexError"
    unfolding run_eq assms(6) [symmetric] using k by simp
  have 2: "action_slice (B ! f) (py_int (rows full ! r ! f)) = Inl IndexError"
    using assms(5) by (rule action_slice_out_of_range)
  have 3: "\<forall>s. visit c (Suc r) f s = Inl IndexError
              \<and> past_message (c_B c) (c_policy c) (c_prior c) (fst s) (Suc r) f = Inl IndexError"
    using p v by simp
  have 4: "\<forall>t g s e. visit c t g s = Inl e \<longrightarrow>
              past_message (c_B c) (c_policy c) (c_prior c) (fst s) t g = Inl e
              \<or> future_message (c_trans_B c) (c_policy c) (c_qs_T c) (c_future_cutoff c) (fst s) t g
                  = Inl e"
    by (intro allI impI) (rule visit_fails_in_message)
  have w: "c_future_cutoff c \<le> c_infer_len c - 1"
    by (simp add: assms(6) infer_len_def future_cutoff_def)
  have 5: "trajectory_covers full (c_infer_len c) (length num_states) \<longrightarrow>
            (\<forall>t g qs e. int t < c_infer_len c \<longrightarrow> g < length num_states \<longrightarrow>
               (past_message (c_B c) (c_policy c) (c_prior c) qs t g = Inl e \<longrightarrow>
                  action_slice (B ! g) (py_int (rows full ! (t - 1) ! g)) = Inl e)
               \<and> (future_message (c_trans_B c) (c_policy c) (c_qs_T c) (c_future_cutoff c) qs t g
                    = Inl e \<longrightarrow>
                  action_slice (make_trans_B spm_norm B ! g) (py_int (rows full ! t ! g)) = Inl e))"
    unfolding cp
    by (intro allI impI conjI)
       (erule (3) past_message_fails_at_B, erule future_message_fails_at_trans_B [OF _ w])
  from 1 2 3 4 5 show ?thesis
    by blast
qed

theorem invalid_action_index_raises_witness:
  "run_mmp_v2 kl_free_energy normalize_columns [2] example_B [example_ll]
         \<lparr>shape1 = 1, rows = [[3], [0]]\<rparr> None None 1 False (1/4) False
     = Inl IndexError
   \<and> action_slice (example_B ! 0) (py_int 3) = Inl IndexError"
proof -
  let ?p = "\<lparr>shape1 = 1, rows = [[3], [0::real]]\<rparr>"
  let ?full = "\<lparr>shape1 = 1, rows = [[0], [3], [0::real]]\<rparr>"
  have n: "(1::int) \<le> 1"
    by simp
  have s: "full_policy (length [example_ll]) ?p None = Inr ?full"
    by (simp add: full_policy_def columns_agree_def stacked_policy_def)
  have r: "int 1 \<le> infer_len (length [example_ll]) (length (rows ?p)) False - 2"
    by (simp add: infer_len_def)
  have f: "(0::nat) < length [2::nat]"
    by simp
  have o: "out_of_range example_B ?full 1 0"
    by (simp add: out_of_range_def example_B_def py_int_def)
  from invalid_action_index_raises [OF n s r f o refl, of kl_free_energy normalize_columns None
      False "1/4"]
  show ?thesis
    by simp
qed

text \<open>
  The claim as stated fails: the last row of the trajectory is never read, so the action
  \<open>5\<close> there, with one action in \<open>B\<close>, raises nothing; and the action \<open>-1\<close>, read at
  \<open>t = 1\<close>, is a negative index that numpy accepts.
\<close>

theorem unused_action_counterexample:
  "run_mmp_v2 kl_free_energy normalize_columns [2] example_B [example_ll]
         \<lparr>shape1 = 1, rows = [[5]]\<rparr> None None 1 False (1/4) False
     = Inr ([[[1 / 2, 1 / 2]], [[1 / 2, 1 / 2]]], - ln (1 + 1 / 10 ^ 16))
   \<and> int (length (example_B ! 0)) \<le> py_int 5
   \<and> run_mmp_v2 kl_free_energy normalize_columns [2] example_B [example_ll]
         \<lparr>shape1 = 1, rows = [[0]]\<rparr> (Some \<lparr>shape1 = 1, rows = [[- 1]]\<rparr>) None 1 False (1/4) False
     = Inr ([[[1 / 2, 1 / 2]], [[1 / 2, 1 / 2]]], - ln (1 + 1 / 10 ^ 16))
   \<and> py_int (- 1) < 0"
  by (simp add: run_defs ceiling_neg_one)

subsection \<open>Beliefs are probability vectors\<close>

lemma sum_list_divide: "sum_list (map (\<lambda>y. y / c) ys) = sum_list ys / (c::real)"
  by (induction ys) (simp_all add: add_divide_distrib)

lemma sum_list_exp_pos: "xs \<noteq> [] \<Longrightarrow> 0 < sum_list (map exp (xs :: real list))"
proof (induction xs)
  case Nil
  then show ?case by simp
next
  case (Cons x xs)
  show ?case
  proof (cases "xs = []")
    case True
    then show ?thesis by simp
  next
    case False
    with Cons.IH have "0 < sum_list (map exp xs)" by simp
    moreover have "0 < exp x" by simp
    ultimately show ?thesis by (simp add: add_pos_pos)
  qed
qed

lemma softmax_distribution:
  assumes "xs \<noteq> []"
  shows "distribution (softmax xs)"
proof -
  have p: "0 < sum_list (map exp xs)"
    using assms by (rule sum_list_exp_pos)
  have "sum_list (map (\<lambda>y. y / sum_list (map exp xs)) (map exp xs)) = 1"
    using p unfolding sum_list_divide by simp
  then have "sum_list (softmax xs) = 1"
    by (simp only: softmax_def Let_def)
  moreover have "\<forall>y \<in> set (softmax xs). 0 \<le> y"
    using p by (auto simp: softmax_def Let_def)
  ultimately show ?thesis
    by (simp add: distribution_def)
qed

lemma distribution_nonempty: "distribution v \<Longrightarrow> v \<noteq> []"
  by (auto simp: distribution_def)

lemma uniform_distribution: "0 < n \<Longrightarrow> distribution (uniform n)"
  by (simp add: distribution_def uniform_def sum_list_replicate)

lemma vadd_nonempty: "a \<noteq> [] \<Longrightarrow> b \<noteq> [] \<Longrightarrow> vadd a b \<noteq> []"
  by (cases a; cases b) (simp_all add: vadd_def)

lemma vsub_nonempty: "a \<noteq> [] \<Longrightarrow> b \<noteq> [] \<Longrightarrow> vsub a b \<noteq> []"
  by (cases a; cases b) (simp_all add: vsub_def)

lemma smul_nonempty: "a \<noteq> [] \<Longrightarrow> smul c a \<noteq> []"
  by (simp add: smul_def)

lemma log_floor_nonempty: "a \<noteq> [] \<Longrightarrow> log_floor a \<noteq> []"
  by (simp add: log_floor_def)

lemma mat_vec_nonempty: "M \<noteq> [] \<Longrightarrow> mat_vec M v \<noteq> []"
  by (simp add: mat_vec_def)

lemma action_slice_mem: "action_slice X a = Inr M \<Longrightarrow> M \<in> set X"
  by (auto simp: action_slice_def Let_def split: if_splits)

lemma set_belief_valid:
  assumes "valid_beliefs n k qs" "t < n" "f < k" "distribution v"
  shows "valid_beliefs n k (set_belief qs t f v)"
  using assms by (auto simp: valid_beliefs_def set_belief_def nth_list_update)

lemma init_valid:
  assumes "\<forall>f < length ns. 0 < ns ! f"
  shows "valid_beliefs n (length ns) (init_qs_seq ns n)"
  using assms by (simp add: valid_beliefs_def init_qs_seq_def uniform_distribution)

lemma shapes_agreeD:
  assumes "shapes_agree nrm ns B ll prior" "f < length ns"
  shows "0 < ns ! f" "length (prior ! f) = ns ! f" "f < length B"
    "M \<in> set (B ! f) \<Longrightarrow> length M = ns ! f"
    "M \<in> set (B ! f) \<Longrightarrow> length (nrm (transpose M)) = ns ! f"
    "X \<in> set ll \<Longrightarrow> axis_len f X = ns ! f"
  using assms by (simp_all add: shapes_agree_def)

lemma likelihood_message_nonempty:
  assumes "shapes_agree nrm ns B ll prior" "f < length ns"
  shows "likelihood_message ns ll qs t f \<noteq> []"
proof (cases "t < length ll")
  case True
  with assms have "axis_len f (ll ! t) = ns ! f" "0 < ns ! f"
    by (auto simp: shapes_agree_def)
  with True show ?thesis
    by (simp add: likelihood_message_def spm_dot_def log_floor_def)
next
  case False
  with assms show ?thesis
    by (simp add: likelihood_message_def shapes_agree_def)
qed

lemma past_message_nonempty:
  assumes "shapes_agree nrm ns B ll prior" "f < length ns"
    and "past_message B p prior qs t f = Inr v"
  shows "v \<noteq> []"
proof (cases "t = 0")
  case True
  with assms show ?thesis
    by (auto simp: past_message_def shapes_agree_def log_floor_def)
next
  case False
  with assms(3) obtain a M where "action_slice (B ! f) a = Inr M"
    and v: "v = log_floor (mat_vec M (qs ! (t - 1) ! f))"
    by (auto simp: past_message_def bindE_Inr_iff)
  then have "M \<in> set (B ! f)"
    by (auto dest: action_slice_mem)
  with shapes_agreeD(1,4) [OF assms(1,2)] have "M \<noteq> []"
    by fastforce
  with v show ?thesis
    by (simp add: log_floor_nonempty mat_vec_nonempty)
qed

lemma future_message_nonempty:
  assumes "shapes_agree nrm ns B ll prior" "f < length ns"
    and "future_message (make_trans_B nrm B) p (make_qs_T ns) k qs t f = Inr v"
  shows "v \<noteq> []"
proof (cases "k \<le> int t")
  case True
  with assms show ?thesis
    by (auto simp: future_message_def shapes_agree_def make_qs_T_def)
next
  case False
  with assms(3) obtain a M where "action_slice (make_trans_B nrm B ! f) a = Inr M"
    and v: "v = log_floor (mat_vec M (qs ! (t + 1) ! f))"
    by (auto simp: future_message_def bindE_Inr_iff)
  then have "M \<in> set (make_trans_B nrm B ! f)"
    by (auto dest: action_slice_mem)
  moreover from assms(1,2) have "f < length B"
    by (simp add: shapes_agree_def)
  ultimately obtain M' where "M' \<in> set (B ! f)" and "M = nrm (transpose M')"
    by (auto simp: make_trans_B_def)
  with shapes_agreeD(1,5) [OF assms(1,2)] have "M \<noteq> []"
    by fastforce
  with v show ?thesis
    by (simp add: log_floor_nonempty mat_vec_nonempty)
qed

lemma direct_update_valid:
  assumes "valid_beliefs n k (fst s)" "t < n" "f < k" "a \<noteq> []" "p \<noteq> []" "u \<noteq> []"
  shows "valid_beliefs n k (fst (direct_update t f a p u s))"
  using assms
  by (simp add: direct_update_def set_belief_valid softmax_distribution vadd_nonempty)

lemma grad_update_valid:
  assumes "valid_beliefs n k (fst s)" "t < n" "f < k" "a \<noteq> []" "p \<noteq> []" "u \<noteq> []"
  shows "valid_beliefs n k (fst (grad_update tau cutoff il nf t f a p u s))"
proof -
  from assms(1-3) have "fst s ! t ! f \<noteq> []"
    by (auto simp: valid_beliefs_def dest: distribution_nonempty)
  then have q: "log_floor (fst s ! t ! f) \<noteq> []"
    by (rule log_floor_nonempty)
  have "vsub (vadd (vadd (smul c a) p) u) (smul c (log_floor (fst s ! t ! f))) \<noteq> []" for c
    using assms(4-6) q by (intro vsub_nonempty vadd_nonempty smul_nonempty)
  then have "vadd (log_floor (fst s ! t ! f))
               (smul tau (map (\<lambda>x. x - m)
                  (vsub (vadd (vadd (smul c a) p) u) (smul c (log_floor (fst s ! t ! f))))))
             \<noteq> []" for c m
    using q by (intro vadd_nonempty smul_nonempty) simp_all
  then show ?thesis
    using assms(1-3)
    by (simp add: grad_update_def Let_def set_belief_valid softmax_distribution)
qed

lemma visit_valid:
  assumes "c = make_ctx cfe nrm ns B ll pol prev prior gd tau lt"
    and "shapes_agree nrm ns B ll (make_prior ns prior)"
    and "t < n" "f < length ns"
    and "valid_beliefs n (length ns) (fst s)"
    and "visit c t f s = Inr s'"
  shows "valid_beliefs n (length ns) (fst s')"
proof -
  from assms(6) obtain p u where
    p: "past_message (c_B c) (c_policy c) (c_prior c) (fst s) t f = Inr p"
    and u: "future_message (c_trans_B c) (c_policy c) (c_qs_T c) (c_future_cutoff c) (fst s) t f
              = Inr u"
    and s': "s' = (if c_grad_descent c
                   then grad_update (c_tau c) (c_future_cutoff c) (c_infer_len c)
                          (length (c_num_states c)) t f
                          (likelihood_message (c_num_states c) (c_ll_seq c) (fst s) t f) p u s
                   else direct_update t f
                          (likelihood_message (c_num_states c) (c_ll_seq c) (fst s) t f) p u s)"
    by (auto simp: visit_def Let_def bindE_Inr_iff)
  have a: "likelihood_message (c_num_states c) (c_ll_seq c) (fst s) t f \<noteq> []"
    using assms(1,2,4) by (simp add: likelihood_message_nonempty)
  have p': "p \<noteq> []"
    using p assms(1,2,4) by (auto dest: past_message_nonempty)
  have u': "u \<noteq> []"
    using u assms(1,2,4) by (auto dest: future_message_nonempty)
  show ?thesis
    unfolding s' using assms(3-5) a p' u'
    by (simp add: direct_update_valid grad_update_valid)
qed

lemma timestep_valid:
  assumes "c = make_ctx cfe nrm ns B ll pol prev prior gd tau lt"
    and "shapes_agree nrm ns B ll (make_prior ns prior)"
    and "t < n"
    and "valid_beliefs n (length ns) (fst s)"
    and "timestep c t s = Inr s'"
  shows "valid_beliefs n (length ns) (fst s')"
proof -
  from assms(5) obtain s1 where
    1: "fold_err (visit c t) [0..<length (c_num_states c)] s = Inr s1"
    and 2: "s' = accumulate c t s1"
    by (auto simp: timestep_def bindE_Inr_iff)
  have "valid_beliefs n (length ns) (fst s1)"
  proof (rule fold_err_invariant [where I = "\<lambda>s. valid_beliefs n (length ns) (fst s)", OF _ assms(4) 1])
    fix f s0 s0'
    assume "f \<in> set [0..<length (c_num_states c)]"
      and "valid_beliefs n (length ns) (fst s0)" and "visit c t f s0 = Inr s0'"
    with assms(1-3) show "valid_beliefs n (length ns) (fst s0')"
      by (auto intro: visit_valid [where s = s0 and f = f])
  qed
  with 2 show ?thesis
    by (simp add: accumulate_def)
qed

lemma sweep_valid:
  assumes "c = make_ctx cfe nrm ns B ll pol prev prior gd tau lt"
    and "shapes_agree nrm ns B ll (make_prior ns prior)"
    and "valid_beliefs (nat (c_infer_len c)) (length ns) (fst s)"
    and "sweep c s = Inr s'"
  shows "valid_beliefs (nat (c_infer_len c)) (length ns) (fst s')"
proof (rule fold_err_invariant
    [where I = "\<lambda>s. valid_beliefs (nat (c_infer_len c)) (length ns) (fst s)", OF _ assms(3)])
  show "fold_err (timestep c) [0..<nat (c_infer_len c)] s = Inr s'"
    using assms(4) by (simp add: sweep_def)
next
  fix t s0 s0'
  assume "t \<in> set [0..<nat (c_infer_len c)]"
    and "valid_beliefs (nat (c_infer_len c)) (length ns) (fst s0)"
    and "timestep c t s0 = Inr s0'"
  with assms(1,2) show "valid_beliefs (nat (c_infer_len c)) (length ns) (fst s0')"
    by (auto intro: timestep_valid [where s = s0 and t = t])
qed

lemma example_shapes_agree:
  "shapes_agree normalize_columns [2] example_B [example_ll] (make_prior [2] (Some [[1/4, 3/4]]))"
  by (simp add: shapes_agree_def example_B_def example_ll_def make_prior_def normalize_columns_def)

text \<open>
  C3. When the shapes of the inputs agree, after any number of sweeps of either rule the
  belief sequence has \<open>infer_len\<close> timesteps with one belief per factor, and every belief
  \<open>qs_seq[t][f]\<close> has entries that are not negative and that sum to \<open>1\<close>.
\<close>

theorem beliefs_stay_distributions:
  assumes "shapes_agree spm_norm num_states B ll_seq (make_prior num_states prior)"
    and "run_mmp_v2 calc_free_energy spm_norm num_states B ll_seq policy prev_actions prior
           num_iter grad_descent tau last_timestep = Inr (qs_seq, F)"
  shows "int (length qs_seq) = infer_len (length ll_seq) (length (rows policy)) last_timestep
       \<and> (\<forall>t < length qs_seq. length (qs_seq ! t) = length num_states
              \<and> (\<forall>f < length num_states.
                    (\<forall>x \<in> set (qs_seq ! t ! f). 0 \<le> x) \<and> sum_list (qs_seq ! t ! f) = 1))"
proof -
  define c where "c = make_ctx calc_free_energy spm_norm num_states B ll_seq policy prev_actions
                        prior grad_descent tau last_timestep"
  define n where "n = nat (c_infer_len c)"
  from assms(2) have nn: "\<not> c_infer_len c < 0"
    and r: "fold_err (\<lambda>itr. sweep c) [0..<nat num_iter] (init_qs_seq num_states n, 0)
              = Inr (qs_seq, F)"
    by (simp_all add: run_eq c_def n_def split: if_splits)
  have "\<forall>f < length num_states. 0 < num_states ! f"
    using assms(1) by (simp add: shapes_agree_def)
  then have i: "valid_beliefs n (length num_states) (fst (init_qs_seq num_states n, 0::real))"
    by (simp add: init_valid)
  have "valid_beliefs n (length num_states) (fst (qs_seq, F))"
  proof (rule fold_err_invariant
      [where I = "\<lambda>s. valid_beliefs n (length num_states) (fst s)", OF _ i r])
    fix itr s0 s0'
    assume "valid_beliefs n (length num_states) (fst s0)" and "sweep c s0 = Inr s0'"
    then show "valid_beliefs n (length num_states) (fst s0')"
      unfolding n_def by (rule sweep_valid [OF c_def assms(1)])
  qed
  then have v: "valid_beliefs n (length num_states) qs_seq"
    by simp
  then have "length qs_seq = n"
    by (simp add: valid_beliefs_def)
  with nn have "int (length qs_seq) = infer_len (length ll_seq) (length (rows policy)) last_timestep"
    by (simp add: n_def c_def)
  with v show ?thesis
    by (simp add: valid_beliefs_def distribution_def)
qed

theorem beliefs_stay_distributions_witness:
  "\<exists>qs_seq F. run_mmp_v2 kl_free_energy normalize_columns [2] example_B [example_ll]
            \<lparr>shape1 = 1, rows = [[0], [0]]\<rparr> None (Some [[1/4, 3/4]]) 3 True (1/4) False
            = Inr (qs_seq, F)
        \<and> length qs_seq = 3
        \<and> sum_list (qs_seq ! 0 ! 0) = 1 \<and> sum_list (qs_seq ! 1 ! 0) = 1
        \<and> sum_list (qs_seq ! 2 ! 0) = 1"
proof -
  let ?p = "\<lparr>shape1 = 1, rows = [[0], [0 :: real]]\<rparr>"
  have i: "0 \<le> infer_len (length [example_ll]) (length (rows ?p)) False"
    by (simp add: infer_len_def)
  have k: "columns_agree ?p None"
    by (simp add: columns_agree_def)
  have v: "\<forall>r f. int r \<le> infer_len (length [example_ll]) (length (rows ?p)) False - 2 \<longrightarrow>
             f < length [2::nat] \<longrightarrow>
             valid_action example_B (stacked_policy (length [example_ll]) ?p None) r f"
  proof (intro allI impI)
    fix r f :: nat
    assume "int r \<le> infer_len (length [example_ll]) (length (rows ?p)) False - 2"
      and "f < length [2::nat]"
    then have "r = 0 \<or> r = 1" and "f = 0"
      by (auto simp: infer_len_def)
    then show "valid_action example_B (stacked_policy (length [example_ll]) ?p None) r f"
      by (auto simp: valid_action_def stacked_policy_def example_B_def py_int_def)
  qed
  from run_succeeds [OF i v k, of kl_free_energy normalize_columns "Some [[1/4, 3/4]]" 3 True "1/4"]
  obtain qs_seq F where
    r: "run_mmp_v2 kl_free_energy normalize_columns [2] example_B [example_ll] ?p None
          (Some [[1/4, 3/4]]) 3 True (1/4) False = Inr (qs_seq, F)"
    by auto
  from beliefs_stay_distributions [OF example_shapes_agree r]
  have l: "int (length qs_seq) = infer_len (length [example_ll]) (length (rows ?p)) False"
    and d: "\<forall>t < length qs_seq. length (qs_seq ! t) = length [2::nat]
              \<and> (\<forall>f < length [2::nat].
                    (\<forall>x \<in> set (qs_seq ! t ! f). 0 \<le> x) \<and> sum_list (qs_seq ! t ! f) = 1)"
    by simp_all
  from l have l3: "length qs_seq = 3"
    by (simp add: infer_len_def)
  with d have "sum_list (qs_seq ! 0 ! 0) = 1" "sum_list (qs_seq ! 1 ! 0) = 1"
    "sum_list (qs_seq ! 2 ! 0) = 1"
    by simp_all
  with r l3 show ?thesis
    by blast
qed

subsection \<open>The free energy of the direct rule\<close>

lemma sweeps_traversal:
  "fold_err (\<lambda>itr. sweep c) xs s
     = fold_err (timestep c) (traversal (length xs) (nat (c_infer_len c))) s"
proof (induction xs arbitrary: s)
  case Nil
  show ?case by (simp add: traversal_def)
next
  case (Cons x xs)
  have "fold_err (\<lambda>itr. sweep c) xs = fold_err (timestep c) (traversal (length xs) (nat (c_infer_len c)))"
    by (rule ext) (rule Cons.IH)
  then have "fold_err (\<lambda>itr. sweep c) (x # xs) s
               = bindE (sweep c s) (fold_err (timestep c) (traversal (length xs) (nat (c_infer_len c))))"
    by simp
  also have "\<dots> = bindE (fold_err (timestep c) [0..<nat (c_infer_len c)] s)
                      (fold_err (timestep c) (traversal (length xs) (nat (c_infer_len c))))"
    by (simp only: sweep_def)
  also have "\<dots> = fold_err (timestep c)
                      ([0..<nat (c_infer_len c)] @ traversal (length xs) (nat (c_infer_len c))) s"
    by (simp only: fold_err_append)
  also have "[0..<nat (c_infer_len c)] @ traversal (length xs) (nat (c_infer_len c))
               = traversal (length (x # xs)) (nat (c_infer_len c))"
    by (simp add: traversal_def)
  finally show ?case .
qed

lemma visit_direct:
  assumes "\<not> c_grad_descent c"
  shows "visit c t f (qs, F) = with_F F (visit c t f (qs, G))"
proof (cases "past_message (c_B c) (c_policy c) (c_prior c) qs t f")
  case (Inl e)
  then show ?thesis by (simp add: visit_def with_F_def)
next
  case p: (Inr p)
  show ?thesis
  proof (cases "future_message (c_trans_B c) (c_policy c) (c_qs_T c) (c_future_cutoff c) qs t f")
    case (Inl e)
    with p show ?thesis by (simp add: visit_def with_F_def)
  next
    case (Inr u)
    with p assms show ?thesis
      by (simp add: visit_def with_F_def direct_update_def)
  qed
qed

lemma factors_direct:
  assumes "\<not> c_grad_descent c"
  shows "fold_err (visit c t) fs (qs, F) = with_F F (fold_err (visit c t) fs (qs, G))"
proof (induction fs arbitrary: qs G)
  case Nil
  show ?case by (simp add: with_F_def)
next
  case (Cons f fs)
  show ?case
  proof (cases "visit c t f (qs, G)")
    case (Inl e)
    with visit_direct [OF assms, of t f qs F G] show ?thesis
      by (simp add: with_F_def)
  next
    case (Inr s1)
    with visit_direct [OF assms, of t f qs F G] have "visit c t f (qs, F) = Inr (fst s1, F)"
      by (simp add: with_F_def)
    with Inr Cons.IH [of "fst s1" "snd s1"] show ?thesis
      by simp
  qed
qed

lemma free_energy_term_eq:
  "free_energy_term c t qs = timestep_free_energy (c_free_energy c) (c_prior c)
      (length (c_num_states c)) (c_ll_seq c) t (qs ! t)"
proof -
  have "log_floor1 = (\<lambda>x. ln (x + 1 / 10 ^ 16))"
    by (rule ext) (simp add: log_floor1_def)
  then show ?thesis
    by (simp add: free_energy_term_def timestep_free_energy_def)
qed

lemma timesteps_direct:
  assumes "\<not> c_grad_descent c"
    and "fold_err (timestep c) ts (qs, F) = Inr (qs', F')"
  shows "F' = F + sum_list (contributions c ts qs) \<and> length (contributions c ts qs) = length ts"
  using assms(2)
proof (induction ts arbitrary: qs F)
  case Nil
  then show ?case by simp
next
  case (Cons t ts)
  from Cons.prems obtain s2 where
    a: "timestep c t (qs, F) = Inr s2" and b: "fold_err (timestep c) ts s2 = Inr (qs', F')"
    by (auto simp: bindE_Inr_iff)
  from a obtain s1 where
    1: "fold_err (visit c t) [0..<length (c_num_states c)] (qs, F) = Inr s1"
    and c: "s2 = accumulate c t s1"
    by (auto simp: timestep_def bindE_Inr_iff)
  from b c have 2: "fold_err (timestep c) ts (accumulate c t s1) = Inr (qs', F')"
    by simp
  from 1 factors_direct [OF assms(1), of t "[0..<length (c_num_states c)]" qs F 0]
  obtain s0 where 0: "fold_err (visit c t) [0..<length (c_num_states c)] (qs, 0) = Inr s0"
    and 3: "s1 = (fst s0, F)"
    by (auto simp: with_F_def split: sum.splits)
  from 3 assms(1) have 4: "accumulate c t s1 = (fst s0, F + free_energy_term c t (fst s0))"
    by (simp add: accumulate_def)
  from Cons.IH [of "fst s0" "F + free_energy_term c t (fst s0)"] 2 4
  have "F' = F + free_energy_term c t (fst s0) + sum_list (contributions c ts (fst s0))"
    and "length (contributions c ts (fst s0)) = length ts"
    by simp_all
  with 0 show ?case
    by (simp add: free_energy_term_eq)
qed

lemma accumulation_example_run:
  "run_mmp_v2 kl_free_energy normalize_columns [2] example_B [example_ll]
         \<lparr>shape1 = 1, rows = [[0]]\<rparr> None None 2 False (1/4) False
     = Inr ([[[1 / 2, 1 / 2]], [[1 / 2, 1 / 2]]], - (2 * ln (1 + 1 / 10 ^ 16)))"
  by (simp add: run_defs)

text \<open>
  C5. With \<^verbatim>\<open>grad_descent\<close> false, \<open>F\<close> starts at \<open>0\<close> and every timestep of every outer
  iteration adds one term to it after the loop over the factors: the free-energy primitive
  on the joint belief \<open>qs_seq[t]\<close> against the prior, with \<open>log(ll_seq[t] + 1e-16)\<close> passed
  when \<open>t < past_len\<close> and no likelihood otherwise. The returned \<open>F\<close> is the sum of these
  \<open>num_iter * infer_len\<close> terms, over all the outer iterations.
\<close>

theorem free_energy_accumulates:
  assumes "c = make_ctx calc_free_energy spm_norm num_states B ll_seq policy prev_actions prior
                 False tau last_timestep"
    and "run_mmp_v2 calc_free_energy spm_norm num_states B ll_seq policy prev_actions prior
           num_iter False tau last_timestep = Inr (qs_seq, F)"
  shows "F = sum_list (contributions c (traversal (nat num_iter) (nat (c_infer_len c)))
                          (init_qs_seq num_states (nat (c_infer_len c))))
       \<and> length (contributions c (traversal (nat num_iter) (nat (c_infer_len c)))
                          (init_qs_seq num_states (nat (c_infer_len c))))
           = nat num_iter * nat (c_infer_len c)"
proof -
  from assms(2) have "fold_err (\<lambda>itr. sweep c) [0..<nat num_iter]
                        (init_qs_seq num_states (nat (c_infer_len c)), 0) = Inr (qs_seq, F)"
    by (simp add: run_eq assms(1) split: if_splits)
  then have "fold_err (timestep c) (traversal (nat num_iter) (nat (c_infer_len c)))
               (init_qs_seq num_states (nat (c_infer_len c)), 0) = Inr (qs_seq, F)"
    using sweeps_traversal [of c "[0..<nat num_iter]"] by simp
  moreover have "\<not> c_grad_descent c"
    by (simp add: assms(1))
  ultimately have "F = 0 + sum_list (contributions c (traversal (nat num_iter) (nat (c_infer_len c)))
                          (init_qs_seq num_states (nat (c_infer_len c))))
       \<and> length (contributions c (traversal (nat num_iter) (nat (c_infer_len c)))
                          (init_qs_seq num_states (nat (c_infer_len c))))
           = length (traversal (nat num_iter) (nat (c_infer_len c)))"
    by (intro timesteps_direct)
  then show ?thesis
    by (simp add: traversal_def length_concat sum_list_replicate)
qed

theorem free_energy_accumulates_witness:
  "sum_list (contributions accumulation_example (traversal 2 2) (init_qs_seq [2] 2))
     = - (2 * ln (1 + 1 / 10 ^ 16))
   \<and> length (contributions accumulation_example (traversal 2 2) (init_qs_seq [2] 2)) = 4"
proof -
  have i: "nat (c_infer_len accumulation_example) = 2"
    by (simp add: accumulation_example_def infer_len_def)
  from free_energy_accumulates [OF accumulation_example_def accumulation_example_run]
  show ?thesis
    unfolding i by simp
qed

subsection \<open>Uniform beliefs\<close>

lemma vadd_replicate: "vadd (replicate m a) (replicate m b) = replicate m (a + b)"
  by (simp add: vadd_def)

lemma vsub_replicate: "vsub (replicate m a) (replicate m b) = replicate m (a - b)"
  by (simp add: vsub_def)

lemma smul_replicate: "smul c (replicate m a) = replicate m (c * a)"
  by (simp add: smul_def)

lemma log_floor_replicate: "log_floor (replicate m a) = replicate m (log_floor1 a)"
  by (simp add: log_floor_def)

lemma mean_replicate: "0 < m \<Longrightarrow> mean (replicate m e) = e"
  by (simp add: mean_def sum_list_replicate)

lemma softmax_replicate: "0 < m \<Longrightarrow> softmax (replicate m a) = uniform m"
  by (simp add: softmax_def Let_def uniform_def sum_list_replicate)

lemma contract_const:
  assumes "g \<le> f \<longrightarrow> f - g < length shape \<longrightarrow> i < shape ! (f - g) \<and> j < shape ! (f - g)"
  shows "contract qs f i g (const_tensor shape k) = contract qs f j g (const_tensor shape k)"
  using assms
proof (induction shape arbitrary: g)
  case Nil
  show ?case by simp
next
  case (Cons n shape)
  show ?case
  proof (cases "g = f")
    case True
    with Cons.prems have "i < n" "j < n"
      by simp_all
    moreover have "contract qs f i (Suc g) (const_tensor shape k)
                   = contract qs f j (Suc g) (const_tensor shape k)"
      using True by (intro Cons.IH) simp
    ultimately show ?thesis
      using True by simp
  next
    case False
    have "contract qs f i (Suc g) (const_tensor shape k)
          = contract qs f j (Suc g) (const_tensor shape k)"
    proof (rule Cons.IH, intro impI)
      assume a: "Suc g \<le> f" "f - Suc g < length shape"
      then have "g \<le> f" "f - g < length (n # shape)" "f - g = Suc (f - Suc g)"
        by simp_all
      with Cons.prems show "i < shape ! (f - Suc g) \<and> j < shape ! (f - Suc g)"
        by simp
    qed
    then have "map (\<lambda>(q, s). q * contract qs f i (Suc g) s)
                 (zip (qs ! g) (replicate n (const_tensor shape k)))
             = map (\<lambda>(q, s). q * contract qs f j (Suc g) s)
                 (zip (qs ! g) (replicate n (const_tensor shape k)))"
      by (intro map_cong) (auto dest!: set_zip_rightD)
    then have "sum_list (map (\<lambda>(q, s). q * contract qs f i (Suc g) s)
                 (zip (qs ! g) (replicate n (const_tensor shape k))))
             = sum_list (map (\<lambda>(q, s). q * contract qs f j (Suc g) s)
                 (zip (qs ! g) (replicate n (const_tensor shape k))))"
      by (rule arg_cong)
    with False show ?thesis
      by simp
  qed
qed

lemma spm_dot_const:
  assumes "f < length ns" "axis_len f (const_tensor ns k) = ns ! f"
  shows "spm_dot (const_tensor ns k) qs f
           = replicate (ns ! f) (contract qs f 0 0 (const_tensor ns k))"
proof -
  have "map (\<lambda>i. contract qs f i 0 (const_tensor ns k)) [0..<ns ! f]
        = map (\<lambda>i. contract qs f 0 0 (const_tensor ns k)) [0..<ns ! f]"
  proof (intro map_cong refl)
    fix i
    assume "i \<in> set [0..<ns ! f]"
    then have "i < ns ! f" "0 < ns ! f"
      by simp_all
    with assms(1) show "contract qs f i 0 (const_tensor ns k) = contract qs f 0 0 (const_tensor ns k)"
      by (intro contract_const) simp
  qed
  then show ?thesis
    by (simp add: spm_dot_def assms(2) map_replicate_const)
qed

lemma init_nth: "t < n \<Longrightarrow> f < length ns \<Longrightarrow> init_qs_seq ns n ! t ! f = uniform (ns ! f)"
  by (simp add: init_qs_seq_def)

lemma set_belief_init:
  assumes "t < n" "f < length ns"
  shows "set_belief (init_qs_seq ns n) t f (uniform (ns ! f)) = init_qs_seq ns n"
proof -
  have "(map uniform ns)[f := uniform (ns ! f)] = map uniform ns"
    using assms(2) list_update_id [of "map uniform ns" f] by simp
  moreover have "(replicate n (map uniform ns))[t := map uniform ns] = replicate n (map uniform ns)"
    using assms(1) list_update_id [of "replicate n (map uniform ns)" t] by simp
  ultimately show ?thesis
    using assms by (simp add: set_belief_def init_qs_seq_def)
qed

lemma direct_update_const:
  "0 < m \<Longrightarrow>
   fst (direct_update t f (replicate m a) (replicate m b) (replicate m d) s)
     = set_belief (fst s) t f (uniform m)"
  by (simp add: direct_update_def vadd_replicate softmax_replicate)

lemma grad_update_const:
  assumes "0 < m" "fst s ! t ! f = uniform m"
  shows "fst (grad_update tau k il nf t f (replicate m a) (replicate m b) (replicate m d) s)
           = set_belief (fst s) t f (uniform m)"
  using assms
  by (simp add: grad_update_def Let_def uniform_def log_floor_replicate smul_replicate
      vadd_replicate vsub_replicate mean_replicate softmax_replicate)

lemma likelihood_message_const:
  assumes "shapes_agree nrm ns B ll prior" "f < length ns"
    and "\<forall>X \<in> set ll. \<exists>k. X = const_tensor ns k"
  shows "\<exists>a. likelihood_message ns ll qs t f = replicate (ns ! f) a"
proof (cases "t < length ll")
  case True
  then have "ll ! t \<in> set ll"
    by simp
  with assms(3) obtain k where k: "ll ! t = const_tensor ns k"
    by auto
  with shapes_agreeD(6) [OF assms(1,2) \<open>ll ! t \<in> set ll\<close>]
  have "axis_len f (const_tensor ns k) = ns ! f"
    by simp
  with assms(2) have "spm_dot (const_tensor ns k) (qs ! t) f
           = replicate (ns ! f) (contract (qs ! t) f 0 0 (const_tensor ns k))"
    by (rule spm_dot_const)
  with True k show ?thesis
    by (simp add: likelihood_message_def log_floor_replicate)
next
  case False
  then show ?thesis
    by (simp add: likelihood_message_def)
qed

lemma past_message_const:
  assumes "f < length ns" "prior ! f = uniform (ns ! f)"
    and "t = 0 \<or> qs ! (t - 1) ! f = uniform (ns ! f)"
    and "\<forall>M \<in> set (B ! f). mat_vec M (uniform (ns ! f)) = uniform (ns ! f)"
    and "past_message B p prior qs t f = Inr v"
  shows "\<exists>a. v = replicate (ns ! f) a"
proof (cases "t = 0")
  case True
  with assms(2,5) show ?thesis
    by (auto simp: past_message_def uniform_def log_floor_replicate)
next
  case False
  with assms(5) obtain a M where "action_slice (B ! f) a = Inr M"
    and v: "v = log_floor (mat_vec M (qs ! (t - 1) ! f))"
    by (auto simp: past_message_def bindE_Inr_iff)
  then have "M \<in> set (B ! f)"
    by (auto dest: action_slice_mem)
  with assms(3,4) False have "mat_vec M (qs ! (t - 1) ! f) = uniform (ns ! f)"
    by simp
  with v show ?thesis
    by (simp add: uniform_def log_floor_replicate)
qed

lemma future_message_const:
  assumes "f < length ns" "f < length B"
    and "k \<le> int t \<or> qs ! (t + 1) ! f = uniform (ns ! f)"
    and "\<forall>M \<in> set (B ! f). mat_vec (nrm (transpose M)) (uniform (ns ! f)) = uniform (ns ! f)"
    and "future_message (make_trans_B nrm B) p (make_qs_T ns) k qs t f = Inr v"
  shows "\<exists>a. v = replicate (ns ! f) a"
proof (cases "k \<le> int t")
  case True
  with assms(1,5) show ?thesis
    by (auto simp: future_message_def make_qs_T_def)
next
  case False
  with assms(5) obtain a M where "action_slice (make_trans_B nrm B ! f) a = Inr M"
    and v: "v = log_floor (mat_vec M (qs ! (t + 1) ! f))"
    by (auto simp: future_message_def bindE_Inr_iff)
  then have "M \<in> set (make_trans_B nrm B ! f)"
    by (auto dest: action_slice_mem)
  with assms(2) obtain M' where "M' \<in> set (B ! f)" and "M = nrm (transpose M')"
    by (auto simp: make_trans_B_def)
  with assms(3,4) False have "mat_vec M (qs ! (t + 1) ! f) = uniform (ns ! f)"
    by simp
  with v show ?thesis
    by (simp add: uniform_def log_floor_replicate)
qed

lemma visit_uniform:
  assumes c: "c = make_ctx cfe nrm ns B ll pol prev prior gd tau lt"
    and sh: "shapes_agree nrm ns B ll (make_prior ns prior)"
    and ev: "\<forall>X \<in> set ll. \<exists>k. X = const_tensor ns k"
    and pr: "make_prior ns prior = map uniform ns"
    and tr: "\<forall>f < length ns. \<forall>M \<in> set (B ! f).
               mat_vec M (uniform (ns ! f)) = uniform (ns ! f)
               \<and> mat_vec (nrm (transpose M)) (uniform (ns ! f)) = uniform (ns ! f)"
    and t: "t < nat (c_infer_len c)" and f: "f < length ns"
    and s: "fst s = init_qs_seq ns (nat (c_infer_len c))"
    and v: "visit c t f s = Inr s'"
  shows "fst s' = init_qs_seq ns (nat (c_infer_len c))"
proof -
  let ?n = "nat (c_infer_len c)"
  let ?m = "ns ! f"
  from v obtain p u where
    p: "past_message (c_B c) (c_policy c) (c_prior c) (fst s) t f = Inr p"
    and u: "future_message (c_trans_B c) (c_policy c) (c_qs_T c) (c_future_cutoff c) (fst s) t f
              = Inr u"
    and s': "s' = (if c_grad_descent c
                   then grad_update (c_tau c) (c_future_cutoff c) (c_infer_len c)
                          (length (c_num_states c)) t f
                          (likelihood_message (c_num_states c) (c_ll_seq c) (fst s) t f) p u s
                   else direct_update t f
                          (likelihood_message (c_num_states c) (c_ll_seq c) (fst s) t f) p u s)"
    by (auto simp: visit_def Let_def bindE_Inr_iff)
  have m: "0 < ?m"
    by (rule shapes_agreeD(1) [OF sh f])
  have fB: "f < length B"
    by (rule shapes_agreeD(3) [OF sh f])
  obtain a where a: "likelihood_message (c_num_states c) (c_ll_seq c) (fst s) t f = replicate ?m a"
    using likelihood_message_const [OF sh f ev, of "fst s" t] by (auto simp: c)
  have "t = 0 \<or> fst s ! (t - 1) ! f = uniform ?m"
    using t f by (cases t) (simp_all add: s init_nth)
  moreover have "make_prior ns prior ! f = uniform ?m"
    using f by (simp add: pr)
  moreover have "\<forall>M \<in> set (B ! f). mat_vec M (uniform ?m) = uniform ?m"
    using tr f by simp
  ultimately obtain b where b: "p = replicate ?m b"
    using past_message_const [OF f, of "make_prior ns prior" t "fst s" B "c_policy c" p] p
    by (auto simp: c)
  have "c_future_cutoff c \<le> int t \<or> fst s ! (t + 1) ! f = uniform ?m"
  proof (cases "c_future_cutoff c \<le> int t")
    case True
    then show ?thesis by simp
  next
    case False
    then have "t + 1 < ?n"
      by (auto simp add: c infer_len_def future_cutoff_def)
    with f show ?thesis
      by (simp add: s init_nth)
  qed
  moreover have "\<forall>M \<in> set (B ! f). mat_vec (nrm (transpose M)) (uniform ?m) = uniform ?m"
    using tr f by simp
  ultimately obtain d where d: "u = replicate ?m d"
    using future_message_const [OF f fB, of "c_future_cutoff c" t "fst s" nrm "c_policy c" u] u
    by (auto simp: c)
  have q: "fst s ! t ! f = uniform ?m"
    using t f by (simp add: s init_nth)
  have "fst s' = set_belief (fst s) t f (uniform ?m)"
    unfolding s' a b d using m q by (simp add: direct_update_const grad_update_const)
  with t f show ?thesis
    by (simp add: s set_belief_init)
qed

lemma timestep_uniform:
  assumes c: "c = make_ctx cfe nrm ns B ll pol prev prior gd tau lt"
    and sh: "shapes_agree nrm ns B ll (make_prior ns prior)"
    and ev: "\<forall>X \<in> set ll. \<exists>k. X = const_tensor ns k"
    and pr: "make_prior ns prior = map uniform ns"
    and tr: "\<forall>f < length ns. \<forall>M \<in> set (B ! f).
               mat_vec M (uniform (ns ! f)) = uniform (ns ! f)
               \<and> mat_vec (nrm (transpose M)) (uniform (ns ! f)) = uniform (ns ! f)"
    and t: "t < nat (c_infer_len c)"
    and s: "fst s = init_qs_seq ns (nat (c_infer_len c))"
    and v: "timestep c t s = Inr s'"
  shows "fst s' = init_qs_seq ns (nat (c_infer_len c))"
proof -
  from v obtain s1 where
    1: "fold_err (visit c t) [0..<length (c_num_states c)] s = Inr s1"
    and 2: "s' = accumulate c t s1"
    by (auto simp: timestep_def bindE_Inr_iff)
  have "fst s1 = init_qs_seq ns (nat (c_infer_len c))"
  proof (rule fold_err_invariant
      [where I = "\<lambda>s. fst s = init_qs_seq ns (nat (c_infer_len c))", OF _ s 1])
    fix f s0 s0'
    assume "f \<in> set [0..<length (c_num_states c)]"
      and s0: "fst s0 = init_qs_seq ns (nat (c_infer_len c))" and v0: "visit c t f s0 = Inr s0'"
    then have "f < length ns"
      by (simp add: c)
    then show "fst s0' = init_qs_seq ns (nat (c_infer_len c))"
      by (rule visit_uniform [OF c sh ev pr tr t _ s0 v0])
  qed
  with 2 show ?thesis
    by (simp add: accumulate_def)
qed

lemma sweep_uniform:
  assumes c: "c = make_ctx cfe nrm ns B ll pol prev prior gd tau lt"
    and sh: "shapes_agree nrm ns B ll (make_prior ns prior)"
    and ev: "\<forall>X \<in> set ll. \<exists>k. X = const_tensor ns k"
    and pr: "make_prior ns prior = map uniform ns"
    and tr: "\<forall>f < length ns. \<forall>M \<in> set (B ! f).
               mat_vec M (uniform (ns ! f)) = uniform (ns ! f)
               \<and> mat_vec (nrm (transpose M)) (uniform (ns ! f)) = uniform (ns ! f)"
    and s: "fst s = init_qs_seq ns (nat (c_infer_len c))"
    and v: "sweep c s = Inr s'"
  shows "fst s' = init_qs_seq ns (nat (c_infer_len c))"
proof (rule fold_err_invariant
    [where I = "\<lambda>s. fst s = init_qs_seq ns (nat (c_infer_len c))", OF _ s])
  show "fold_err (timestep c) [0..<nat (c_infer_len c)] s = Inr s'"
    using v by (simp add: sweep_def)
next
  fix t s0 s0'
  assume "t \<in> set [0..<nat (c_infer_len c)]"
    and s0: "fst s0 = init_qs_seq ns (nat (c_infer_len c))" and v0: "timestep c t s0 = Inr s0'"
  then have "t < nat (c_infer_len c)"
    by simp
  then show "fst s0' = init_qs_seq ns (nat (c_infer_len c))"
    by (rule timestep_uniform [OF c sh ev pr tr _ s0 v0])
qed

text \<open>
  C8, as the source has it. When every likelihood tensor is uniform, the prior is
  uniform, the shapes agree and every action slice of \<open>B\<close> and of \<open>trans_B\<close> maps the uniform
  vector to the uniform vector (the slices of a doubly stochastic \<open>B\<close> do), the beliefs are
  the uniform vectors after any number of sweeps of either rule, for any policy.
\<close>

theorem uniform_beliefs_stay_uniform:
  assumes "shapes_agree spm_norm num_states B ll_seq (make_prior num_states prior)"
    and "\<forall>X \<in> set ll_seq. \<exists>k. X = const_tensor num_states k"
    and "make_prior num_states prior = map uniform num_states"
    and "\<forall>f < length num_states. \<forall>M \<in> set (B ! f).
           mat_vec M (uniform (num_states ! f)) = uniform (num_states ! f)
           \<and> mat_vec (spm_norm (transpose M)) (uniform (num_states ! f)) = uniform (num_states ! f)"
    and "run_mmp_v2 calc_free_energy spm_norm num_states B ll_seq policy prev_actions prior
           num_iter grad_descent tau last_timestep = Inr (qs_seq, F)"
  shows "int (length qs_seq) = infer_len (length ll_seq) (length (rows policy)) last_timestep
       \<and> (\<forall>t < length qs_seq. length (qs_seq ! t) = length num_states
              \<and> (\<forall>f < length num_states.
                    qs_seq ! t ! f = replicate (num_states ! f) (1 / real (num_states ! f))))"
proof -
  define c where "c = make_ctx calc_free_energy spm_norm num_states B ll_seq policy prev_actions
                        prior grad_descent tau last_timestep"
  let ?n = "nat (c_infer_len c)"
  from assms(5) have nn: "\<not> c_infer_len c < 0"
    and r: "fold_err (\<lambda>itr. sweep c) [0..<nat num_iter] (init_qs_seq num_states ?n, 0)
              = Inr (qs_seq, F)"
    by (simp_all add: run_eq c_def split: if_splits)
  have i: "fst (init_qs_seq num_states ?n, 0::real) = init_qs_seq num_states ?n"
    by simp
  have "fst (qs_seq, F) = init_qs_seq num_states ?n"
  proof (rule fold_err_invariant
      [where I = "\<lambda>s. fst s = init_qs_seq num_states ?n", OF _ i r])
    fix itr s0 s0'
    assume "fst s0 = init_qs_seq num_states ?n" and "sweep c s0 = Inr s0'"
    then show "fst s0' = init_qs_seq num_states ?n"
      by (rule sweep_uniform [OF c_def assms(1-4)])
  qed
  then have q: "qs_seq = init_qs_seq num_states ?n"
    by simp
  then have "length qs_seq = ?n"
    by (simp add: init_qs_seq_def)
  with nn have "int (length qs_seq) = infer_len (length ll_seq) (length (rows policy)) last_timestep"
    by (simp add: c_def)
  moreover have "\<forall>t < length qs_seq. length (qs_seq ! t) = length num_states
              \<and> (\<forall>f < length num_states.
                    qs_seq ! t ! f = replicate (num_states ! f) (1 / real (num_states ! f)))"
    unfolding q by (simp add: init_qs_seq_def uniform_def)
  ultimately show ?thesis
    by simp
qed

theorem uniform_beliefs_stay_uniform_witness:
  "\<exists>qs_seq F. run_mmp_v2 kl_free_energy normalize_columns [2] example_B [const_tensor [2] 1]
            \<lparr>shape1 = 1, rows = [[0], [0]]\<rparr> None None 2 True (1/4) False
          = Inr (qs_seq, F)
        \<and> length qs_seq = 3 \<and> qs_seq ! 0 = [[1 / 2, 1 / 2]] \<and> qs_seq ! 1 = [[1 / 2, 1 / 2]]
        \<and> qs_seq ! 2 = [[1 / 2, 1 / 2]]"
proof -
  let ?p = "\<lparr>shape1 = 1, rows = [[0], [0 :: real]]\<rparr>"
  let ?ll = "[const_tensor [2] 1]"
  have i: "0 \<le> infer_len (length ?ll) (length (rows ?p)) False"
    by (simp add: infer_len_def)
  have k: "columns_agree ?p None"
    by (simp add: columns_agree_def)
  have v: "\<forall>r f. int r \<le> infer_len (length ?ll) (length (rows ?p)) False - 2 \<longrightarrow>
             f < length [2::nat] \<longrightarrow>
             valid_action example_B (stacked_policy (length ?ll) ?p None) r f"
  proof (intro allI impI)
    fix r f :: nat
    assume "int r \<le> infer_len (length ?ll) (length (rows ?p)) False - 2"
      and "f < length [2::nat]"
    then have "r = 0 \<or> r = 1" and "f = 0"
      by (auto simp: infer_len_def)
    then show "valid_action example_B (stacked_policy (length ?ll) ?p None) r f"
      by (auto simp: valid_action_def stacked_policy_def example_B_def py_int_def)
  qed
  from run_succeeds [OF i v k, of kl_free_energy normalize_columns None 2 True "1/4"]
  obtain qs_seq F where
    r: "run_mmp_v2 kl_free_energy normalize_columns [2] example_B ?ll ?p None None 2 True (1/4)
          False = Inr (qs_seq, F)"
    by auto
  have sh: "shapes_agree normalize_columns [2] example_B ?ll (make_prior [2] None)"
    by (simp add: shapes_agree_def example_B_def make_prior_def normalize_columns_def uniform_def
        replicate_numeral)
  have ev: "\<forall>X \<in> set ?ll. \<exists>k. X = const_tensor [2] k"
    by simp
  have pr: "make_prior [2] None = map uniform [2]"
    by (simp add: make_prior_def)
  have tr: "\<forall>f < length [2::nat]. \<forall>M \<in> set (example_B ! f).
           mat_vec M (uniform ([2] ! f)) = uniform ([2] ! f)
           \<and> mat_vec (normalize_columns (transpose M)) (uniform ([2] ! f)) = uniform ([2] ! f)"
    by (simp add: example_B_def eval_defs)
  from uniform_beliefs_stay_uniform [OF sh ev pr tr r]
  have l: "int (length qs_seq) = infer_len (length ?ll) (length (rows ?p)) False"
    and u: "\<forall>t < length qs_seq. length (qs_seq ! t) = length [2::nat]
              \<and> (\<forall>f < length [2::nat].
                    qs_seq ! t ! f = replicate ([2] ! f) (1 / real ([2::nat] ! f)))"
    by simp_all
  from l have l3: "length qs_seq = 3"
    by (simp add: infer_len_def)
  have "qs_seq ! t = [[1 / 2, 1 / 2]]" if "t < 3" for t
  proof -
    from u l3 that have "length (qs_seq ! t) = 1" and "qs_seq ! t ! 0 = [1 / 2, 1 / 2]"
      by (simp_all add: replicate_numeral)
    then show ?thesis
      by (cases "qs_seq ! t") simp_all
  qed
  then have "qs_seq ! 0 = [[1 / 2, 1 / 2]]" "qs_seq ! 1 = [[1 / 2, 1 / 2]]"
    "qs_seq ! 2 = [[1 / 2, 1 / 2]]"
    by simp_all
  with r l3 show ?thesis
    by blast
qed

text \<open>
  The claim as stated fails for a \<open>B\<close> whose columns sum to \<open>1\<close> and whose rows do not: the
  past message of \<open>t = 1\<close> is the floored log of \<open>B\<close> applied to the uniform belief of
  \<open>t = 0\<close>, which is not uniform, and neither is the belief of \<open>t = 1\<close> after one sweep.
\<close>

theorem nonuniform_counterexample:
  "map_sum id fst
     (run_mmp_v2 kl_free_energy normalize_columns [2] skewed_B [const_tensor [2] 1]
         \<lparr>shape1 = 1, rows = [[0]]\<rparr> None None 1 False (1/4) False)
     = Inr [[[1 / 2, 1 / 2]],
            [[(3 / 4 + 1 / 10 ^ 16) / (1 + 2 / 10 ^ 16), (1 / 4 + 1 / 10 ^ 16) / (1 + 2 / 10 ^ 16)]]]
   \<and> (3 / 4 + 1 / 10 ^ 16) / (1 + 2 / 10 ^ 16) \<noteq> (1 / 2 :: real)
   \<and> mat_vec (skewed_B ! 0 ! 0) [1 / 2, 1 / 2] = [3 / 4, 1 / 4]
   \<and> map sum_list (transpose (skewed_B ! 0 ! 0)) = [1, 1]"
  by (simp add: run_defs skewed_B_def)

end
